theory Spec2Isabelle
  imports Complex_Main
begin

section \<open>Strings and numbers of the host language\<close>

text \<open>
  The controller of \<^verbatim>\<open>src/js/main.js\<close> keeps its slide index in a JavaScript number that
  only ever holds integers (it is initialised to \<^verbatim>\<open>0\<close>, incremented, decremented, or
  assigned an index that passed a range check), so the index is an \<^typ>\<open>int\<close>. Strings are
  sequences of code units; the model uses the code units below 256.
\<close>

subsection \<open>\<^verbatim>\<open>Number.prototype.toString\<close> on integers\<close>

fun digits_of :: "nat \<Rightarrow> string" where
  "digits_of n =
     (if n < 10 then [''0123456789'' ! n]
      else digits_of (n div 10) @ [''0123456789'' ! (n mod 10)])"

declare digits_of.simps [simp del]

definition toString :: "int \<Rightarrow> string" where
  "toString i = (if i < 0 then CHR ''-'' # digits_of (nat (- i)) else digits_of (nat i))"

subsection \<open>\<^verbatim>\<open>parseInt\<close> with no radix argument\<close>

text \<open>
  ECMAScript \<^verbatim>\<open>parseInt(string)\<close>: leading white space is skipped, an optional sign is
  read, a \<^verbatim>\<open>0x\<close>/\<^verbatim>\<open>0X\<close> prefix selects radix 16 (radix 10 otherwise), the longest prefix of
  digits of that radix is taken, and everything after it is ignored. An empty digit
  prefix gives \<^verbatim>\<open>NaN\<close>, which is \<open>None\<close> here. The result is the mathematical integer; the
  final conversion to a double is monotone and exact below \<open>2^53\<close>, so it changes no
  comparison with a slide count, and \<^verbatim>\<open>-0\<close> compares and indexes as \<^verbatim>\<open>0\<close>.
\<close>

definition is_white_space :: "char \<Rightarrow> bool" where
  "is_white_space c = ((of_char c :: nat) \<in> {9, 10, 11, 12, 13, 32, 160})"

definition digit_val :: "char \<Rightarrow> nat option" where
  "digit_val c =
     (let n = (of_char c :: nat) in
      if 48 \<le> n \<and> n \<le> 57 then Some (n - 48)
      else if 97 \<le> n \<and> n \<le> 122 then Some (n - 87)
      else if 65 \<le> n \<and> n \<le> 90 then Some (n - 55)
      else None)"

definition is_digit :: "nat \<Rightarrow> char \<Rightarrow> bool" where
  "is_digit radix c = (case digit_val c of Some d \<Rightarrow> d < radix | None \<Rightarrow> False)"

definition digits_value :: "nat \<Rightarrow> string \<Rightarrow> nat" where
  "digits_value radix ds = foldl (\<lambda>acc c. acc * radix + the (digit_val c)) 0 ds"

definition strip_radix_prefix :: "string \<Rightarrow> nat \<times> string" where
  "strip_radix_prefix s =
     (if take 2 s = ''0x'' \<or> take 2 s = ''0X'' then (16, drop 2 s) else (10, s))"

definition parseInt :: "string \<Rightarrow> int option" where
  "parseInt str =
     (let s = dropWhile is_white_space str;
          sign = (if take 1 s = ''-'' then - 1 else (1::int));
          s' = (if take 1 s = ''-'' \<or> take 1 s = ''+'' then drop 1 s else s);
          (radix, body) = strip_radix_prefix s';
          z = takeWhile (is_digit radix) body
      in if z = [] then None else Some (sign * int (digits_value radix z)))"

subsection \<open>Double-precision arithmetic of the progress percentage\<close>

text \<open>
  \<^verbatim>\<open>((this.currentSlide + 1) / this.totalSlides) * 100\<close> is evaluated in IEEE-754 binary64:
  the quotient is rounded to the nearest double (ties to even) and so is the product. A
  finite double is a signed integer mantissa with a binary exponent. \<open>round_ratio\<close> rounds
  a positive ratio of integers to 53 significant bits with an unbounded exponent;
  overflow and subnormals cannot occur for a quotient of two slide counts and its
  hundredfold, and the integers involved are below \<open>2^53\<close> and so are doubles themselves.
\<close>

datatype number = Finite int int | PosInfinity | NegInfinity | NaN

text \<open>\<open>Finite m k\<close> is the double of value \<open>m * 2^k\<close>.\<close>

definition pow2 :: "int \<Rightarrow> rat" where
  "pow2 e = (if 0 \<le> e then 2 ^ nat e else 1 / 2 ^ nat (- e))"

fun number_value :: "number \<Rightarrow> rat option" where
  "number_value (Finite m k) = Some (of_int m * pow2 k)"
| "number_value PosInfinity = None"
| "number_value NegInfinity = None"
| "number_value NaN = None"

fun bit_length :: "nat \<Rightarrow> nat" where
  "bit_length n = (if n = 0 then 0 else Suc (bit_length (n div 2)))"

declare bit_length.simps [simp del]

definition binade :: "nat \<Rightarrow> nat \<Rightarrow> int" where
  \<comment> \<open>for \<open>a, b > 0\<close>: the exponent \<open>e\<close> with \<open>2^e \<le> a / b < 2^(e+1)\<close>\<close>
  "binade a b =
     (let e0 = int (bit_length a) - int (bit_length b)
      in if (if 0 \<le> e0 then b * 2 ^ nat e0 \<le> a else b \<le> a * 2 ^ nat (- e0))
         then e0 else e0 - 1)"

definition round_half_even :: "nat \<Rightarrow> nat \<Rightarrow> nat" where
  \<comment> \<open>\<open>num / den\<close> rounded to the nearest integer, a tie to the even one\<close>
  "round_half_even num den =
     (let qu = num div den; r = num mod den
      in if 2 * r < den then qu
         else if den < 2 * r then qu + 1
         else if even qu then qu else qu + 1)"

definition round_ratio :: "nat \<Rightarrow> nat \<Rightarrow> nat \<times> int" where
  \<comment> \<open>for \<open>a, b > 0\<close>: mantissa and exponent of the double nearest to \<open>a / b\<close>\<close>
  "round_ratio a b =
     (let k = binade a b - 52;
          num = (if k < 0 then a * 2 ^ nat (- k) else a);
          den = (if k < 0 then b else b * 2 ^ nat k)
      in (round_half_even num den, k))"

definition js_divide :: "int \<Rightarrow> int \<Rightarrow> number" where
  \<comment> \<open>\<^verbatim>\<open>x / y\<close> on two integers\<close>
  "js_divide x y =
     (if y = 0 then (if 0 < x then PosInfinity else if x < 0 then NegInfinity else NaN)
      else if x = 0 then Finite 0 0
      else let (m, k) = round_ratio (nat \<bar>x\<bar>) (nat \<bar>y\<bar>)
           in Finite (sgn x * sgn y * int m) k)"

fun js_times :: "number \<Rightarrow> nat \<Rightarrow> number" where
  \<comment> \<open>\<^verbatim>\<open>v * c\<close> for a positive integer constant \<open>c\<close>\<close>
  "js_times (Finite m k) c =
     (if m = 0 then Finite 0 0
      else let (m', k') = (if 0 \<le> k then round_ratio (nat \<bar>m\<bar> * c * 2 ^ nat k) 1
                           else round_ratio (nat \<bar>m\<bar> * c) (2 ^ nat (- k)))
           in Finite (sgn m * int m') k')"
| "js_times PosInfinity c = PosInfinity"
| "js_times NegInfinity c = NegInfinity"
| "js_times NaN c = NaN"

section \<open>The document and the browser environment\<close>

subsection \<open>Local storage\<close>

text \<open>
  \<^verbatim>\<open>localStorage\<close> is a string-to-string store whose accessors may throw: a write on a
  full store, any access when storage is disabled or in a privacy mode.
\<close>

datatype exn = QuotaExceededError | SecurityError | ChartError

record storage =
  items :: "string \<rightharpoonup> string"
  getItem_throws :: "exn option"
  setItem_throws :: "exn option"

definition getItem :: "string \<Rightarrow> storage \<Rightarrow> exn + string option" where
  "getItem key st = (case getItem_throws st of Some e \<Rightarrow> Inl e | None \<Rightarrow> Inr (items st key))"

definition setItem :: "string \<Rightarrow> string \<Rightarrow> storage \<Rightarrow> exn + storage" where
  "setItem key v st =
     (case setItem_throws st of
        Some e \<Rightarrow> Inl e
      | None \<Rightarrow> Inr (st\<lparr>items := (items st)(key \<mapsto> v)\<rparr>))"

subsection \<open>Elements\<close>

text \<open>
  A slide element carries its class list and its inline \<^verbatim>\<open>style.transition\<close>; a navigation
  button its \<^verbatim>\<open>disabled\<close> property and class list; a chart handle counts the calls of its
  \<^verbatim>\<open>resize()\<close>. Every handle the registry holds was built by the charting library, so the
  guard \<^verbatim>\<open>chart && typeof chart.resize === 'function'\<close> holds for each of them.
\<close>

record slide =
  classList :: "string set"
  transition :: string

record button =
  disabled :: bool
  button_classes :: "string set"

record chart =
  resize_calls :: nat

definition add_class :: "string \<Rightarrow> string set \<Rightarrow> string set" where
  "add_class c cs = insert c cs"

definition remove_class :: "string \<Rightarrow> string set \<Rightarrow> string set" where
  "remove_class c cs = cs - {c}"

definition toggle_class :: "string \<Rightarrow> bool \<Rightarrow> string set \<Rightarrow> string set" where
  \<comment> \<open>\<^verbatim>\<open>classList.toggle(c, force)\<close>\<close>
  "toggle_class c force cs = (if force then add_class c cs else remove_class c cs)"

definition element_at :: "'a list \<Rightarrow> int \<Rightarrow> nat option" where
  \<comment> \<open>\<^verbatim>\<open>list[i]\<close>: the element's position, \<^verbatim>\<open>undefined\<close> (\<open>None\<close>) out of range\<close>
  "element_at xs i = (if 0 \<le> i \<and> i < int (length xs) then Some (nat i) else None)"

subsection \<open>Timers, animation frames and the controller's fields\<close>

text \<open>
  The callbacks the controller hands to the scheduler: the two nested animation-frame
  callbacks of \<^verbatim>\<open>goToSlide\<close>, its settle timer (which closes over the new slide element),
  and the debounced body of \<^verbatim>\<open>handleResize\<close>.
\<close>

datatype callback = FrameOuter | FrameInner | Settle "nat option" | ResizeFire

record timer =
  timer_id :: nat
  due :: nat
  action :: callback

record controller =
  slides :: "slide list"
  currentSlide :: int
  totalSlides :: int
  isAnimating :: bool
  currentSlideElement :: "string option"
  totalSlidesElement :: "string option"
  prevButton :: "button option"
  nextButton :: "button option"
  progressFill :: "number option"
  touchStartX :: int
  touchStartY :: int
  touchStartTime :: nat
  charts :: "(string \<times> chart) list"
  isMobile :: bool
  isTablet :: bool
  resizeTimeout :: "nat option"
  localStorage :: storage
  console :: "string list"
  uncaught :: "exn list"
  focused :: "nat option"
  innerWidth :: int
  canvases :: "string list"
  chart_library :: bool
  chart_throws :: "string \<Rightarrow> bool"
  clock :: nat
  timer_seq :: nat
  timers :: "timer list"
  frame_requests :: "callback list"

text \<open>
  Besides the fields of the class, the record holds what the code reaches through
  globals: the storage, the console, exceptions that escaped a callback, the focused
  slide, the window width, the canvases of the document, whether the charting library
  is loaded and for which canvas its constructor throws, the clock in milliseconds and
  the scheduler's pending timers and animation-frame requests. An optional element is
  \<open>None\<close> when the document lacks it; \<open>progressFill\<close> holds the percentage last written
  to the bar's width.
\<close>

fun insert_timer :: "timer \<Rightarrow> timer list \<Rightarrow> timer list" where
  "insert_timer t [] = [t]"
| "insert_timer t (u # us) = (if due u \<le> due t then u # insert_timer t us else t # u # us)"

definition setTimeout :: "callback \<Rightarrow> nat \<Rightarrow> controller \<Rightarrow> nat \<times> controller" where
  "setTimeout cb delay s =
     (let i = Suc (timer_seq s)
      in (i, s\<lparr>timer_seq := i,
               timers := insert_timer \<lparr>timer_id = i, due = clock s + delay, action = cb\<rparr> (timers s)\<rparr>))"

definition clearTimeout :: "nat \<Rightarrow> controller \<Rightarrow> controller" where
  "clearTimeout i s = s\<lparr>timers := filter (\<lambda>t. timer_id t \<noteq> i) (timers s)\<rparr>"

definition requestAnimationFrame :: "callback \<Rightarrow> controller \<Rightarrow> controller" where
  "requestAnimationFrame cb s = s\<lparr>frame_requests := frame_requests s @ [cb]\<rparr>"

section \<open>The presentation controller\<close>

subsection \<open>Display updates\<close>

definition percentage :: "int \<Rightarrow> int \<Rightarrow> number" where
  \<comment> \<open>\<^verbatim>\<open>((this.currentSlide + 1) / this.totalSlides) * 100\<close>\<close>
  "percentage cur tot = js_times (js_divide (cur + 1) tot) 100"

definition updateProgress :: "controller \<Rightarrow> controller" where
  "updateProgress s =
     (case progressFill s of
        None \<Rightarrow> s
      | Some _ \<Rightarrow> s\<lparr>progressFill := Some (percentage (currentSlide s) (totalSlides s))\<rparr>)"

text \<open>
  The rest of \<^verbatim>\<open>updateProgress\<close> restarts the decorative statistic bars of the page: it
  zeroes their widths and sets 100ms timers that write the widths back. It reads and
  writes no field of the controller, its timers touch nothing but those bars, and it
  is left out, timers included.
\<close>

definition updateSlideCounter :: "controller \<Rightarrow> controller" where
  "updateSlideCounter s =
     (let s1 = (case currentSlideElement s of
                  None \<Rightarrow> s
                | Some _ \<Rightarrow> s\<lparr>currentSlideElement := Some (toString (currentSlide s + 1))\<rparr>)
      in case totalSlidesElement s1 of
           None \<Rightarrow> s1
         | Some _ \<Rightarrow> s1\<lparr>totalSlidesElement := Some (toString (totalSlides s1))\<rparr>)"

definition set_disabled :: "bool \<Rightarrow> button \<Rightarrow> button" where
  "set_disabled d b = b\<lparr>disabled := d, button_classes := toggle_class ''disabled'' d (button_classes b)\<rparr>"

definition updateButtonStates :: "bool \<Rightarrow> controller \<Rightarrow> controller" where
  "updateButtonStates dis s =
     (let s1 = (case prevButton s of
                  None \<Rightarrow> s
                | Some b \<Rightarrow> s\<lparr>prevButton := Some (set_disabled (dis \<or> currentSlide s = 0) b)\<rparr>)
      in case nextButton s1 of
           None \<Rightarrow> s1
         | Some b \<Rightarrow>
             s1\<lparr>nextButton :=
                  Some (set_disabled (dis \<or> currentSlide s1 = totalSlides s1 - 1) b)\<rparr>)"

definition showSlide :: "int \<Rightarrow> controller \<Rightarrow> controller" where
  "showSlide index s =
     (let shown = map (\<lambda>(i, sl).
                    let cs = remove_class ''exit'' (remove_class ''active'' (classList sl))
                    in sl\<lparr>classList := (if int i = index then add_class ''active'' cs else cs)\<rparr>)
                  (enumerate 0 (slides s));
          s1 = s\<lparr>slides := shown, currentSlide := index\<rparr>
      in updateButtonStates False (updateSlideCounter (updateProgress s1)))"

subsection \<open>Persistence\<close>

definition saveProgress :: "controller \<Rightarrow> exn + controller" where
  "saveProgress s =
     (case setItem ''presentationProgress'' (toString (currentSlide s)) (localStorage s) of
        Inr st \<Rightarrow> Inr (s\<lparr>localStorage := st\<rparr>)
      | Inl e \<Rightarrow> Inr (s\<lparr>console := console s @ [''Could not save progress:'']\<rparr>))"

definition loadProgress :: "controller \<Rightarrow> exn + controller" where
  "loadProgress s =
     (case getItem ''presentationProgress'' (localStorage s) of
        Inr saved \<Rightarrow>
          (case saved of
             None \<Rightarrow> Inr s
           | Some str \<Rightarrow>
               (case parseInt str of
                  None \<Rightarrow> Inr s
                | Some savedSlide \<Rightarrow>
                    if 0 \<le> savedSlide \<and> savedSlide < totalSlides s
                    then Inr (s\<lparr>currentSlide := savedSlide\<rparr>)
                    else Inr s))
      | Inl e \<Rightarrow> Inr (s\<lparr>console := console s @ [''Could not load progress:'']\<rparr>))"

text \<open>
  Both bodies are one \<^verbatim>\<open>try\<close> block with a \<^verbatim>\<open>catch\<close> that logs a warning: the \<open>Inl\<close> of the
  storage call is the exception, and the result is the sum type of a function that
  could let one escape.
\<close>

subsection \<open>Navigation\<close>

definition goToSlide :: "int \<Rightarrow> controller \<Rightarrow> controller" where
  "goToSlide index s =
     (if isAnimating s \<or> index < 0 \<or> totalSlides s \<le> index then s
      else
        let s1 = updateButtonStates True (s\<lparr>isAnimating := True\<rparr>);
            s2 = (case element_at (slides s1) (currentSlide s1) of
                    None \<Rightarrow> s1
                  | Some j \<Rightarrow>
                      s1\<lparr>slides := (slides s1)[j := (slides s1 ! j)
                             \<lparr>classList := add_class ''exit''
                                 (remove_class ''active'' (classList (slides s1 ! j)))\<rparr>]\<rparr>);
            s3 = s2\<lparr>currentSlide := index\<rparr>
        in requestAnimationFrame FrameOuter s3)"

definition nextSlide :: "controller \<Rightarrow> controller" where
  "nextSlide s =
     (if currentSlide s < totalSlides s - 1 then goToSlide (currentSlide s + 1) s else s)"

definition previousSlide :: "controller \<Rightarrow> controller" where
  "previousSlide s = (if 0 < currentSlide s then goToSlide (currentSlide s - 1) s else s)"

definition commitSlide :: "controller \<Rightarrow> controller" where
  \<comment> \<open>the inner animation-frame callback of \<^verbatim>\<open>goToSlide\<close>\<close>
  "commitSlide s =
     (let newSlideElement = element_at (slides s) (currentSlide s);
          s1 = (case newSlideElement of
                  None \<Rightarrow> s
                | Some j \<Rightarrow>
                    s\<lparr>slides := (slides s)[j := (slides s ! j)
                          \<lparr>classList := add_class ''active''
                              (remove_class ''exit'' (classList (slides s ! j)))\<rparr>]\<rparr>);
          s2 = updateSlideCounter (updateProgress s1)
      in case saveProgress s2 of
           Inl e \<Rightarrow> s2\<lparr>uncaught := uncaught s2 @ [e]\<rparr>
         | Inr s3 \<Rightarrow> snd (setTimeout (Settle newSlideElement) 600 s3))"

definition settle :: "nat option \<Rightarrow> controller \<Rightarrow> controller" where
  \<comment> \<open>the 600ms timer callback of \<^verbatim>\<open>goToSlide\<close>\<close>
  "settle newSlideElement s =
     (let s1 = updateButtonStates False (s\<lparr>isAnimating := False\<rparr>)
      in case newSlideElement of None \<Rightarrow> s1 | Some j \<Rightarrow> s1\<lparr>focused := Some j\<rparr>)"

subsection \<open>Input handlers\<close>

text \<open>
  A handler that may call \<^verbatim>\<open>e.preventDefault()\<close> returns whether it did, with the new state.
\<close>

definition handleKeyboard :: "string \<Rightarrow> controller \<Rightarrow> bool \<times> controller" where
  "handleKeyboard key s =
     (if isAnimating s then (False, s)
      else if key = ''ArrowLeft'' \<or> key = ''PageUp'' then (True, previousSlide s)
      else if key = ''ArrowRight'' \<or> key = ''PageDown'' \<or> key = '' '' then (True, nextSlide s)
      else if key = ''Home'' then (True, goToSlide 0 s)
      else if key = ''End'' then (True, goToSlide (totalSlides s - 1) s)
      else (False, s))"

definition handleTouchStart :: "int \<Rightarrow> int \<Rightarrow> controller \<Rightarrow> controller" where
  "handleTouchStart x y s = s\<lparr>touchStartX := x, touchStartY := y, touchStartTime := clock s\<rparr>"

definition handleTouchEnd :: "int \<Rightarrow> int \<Rightarrow> controller \<Rightarrow> bool \<times> controller" where
  "handleTouchEnd touchEndX touchEndY s =
     (if isAnimating s then (False, s)
      else
        let deltaX = touchEndX - touchStartX s;
            deltaY = touchEndY - touchStartY s;
            deltaTime = int (clock s) - int (touchStartTime s)
        in if \<bar>deltaY\<bar> < \<bar>deltaX\<bar> \<and> 50 < \<bar>deltaX\<bar> \<and> deltaTime < 500
           then (True, if 0 < deltaX then previousSlide s else nextSlide s)
           else (False, s))"

text \<open>
  Touch coordinates are taken in whole pixels. The touch listeners are registered as
  passive, so the browser ignores the \<^verbatim>\<open>preventDefault\<close> call that the flag records.
\<close>

subsection \<open>Debounced resize\<close>

definition optimizeForMobile :: "controller \<Rightarrow> controller" where
  "optimizeForMobile s =
     s\<lparr>slides := map (\<lambda>sl. sl\<lparr>transition :=
                     (if isMobile s then ''opacity 0.3s ease''
                      else ''all 0.6s cubic-bezier(0.4, 0, 0.2, 1)'')\<rparr>) (slides s)\<rparr>"

definition resize_charts :: "(string \<times> chart) list \<Rightarrow> (string \<times> chart) list" where
  \<comment> \<open>one relayout pass: \<^verbatim>\<open>this.charts.forEach(chart => chart.resize())\<close>\<close>
  "resize_charts reg = map (\<lambda>(k, c). (k, c\<lparr>resize_calls := Suc (resize_calls c)\<rparr>)) reg"

definition resizeFire :: "controller \<Rightarrow> controller" where
  \<comment> \<open>the timer callback of \<^verbatim>\<open>handleResize\<close>\<close>
  "resizeFire s =
     (let s1 = s\<lparr>isMobile := innerWidth s \<le> 768,
                 isTablet := 768 < innerWidth s \<and> innerWidth s \<le> 1024\<rparr>;
          s2 = s1\<lparr>charts := resize_charts (charts s1)\<rparr>
      in if isMobile s2 then optimizeForMobile s2 else s2)"

definition handleResize :: "controller \<Rightarrow> controller" where
  "handleResize s =
     (let s1 = (case resizeTimeout s of
                  None \<Rightarrow> s
                | Some i \<Rightarrow> if i = 0 then s else clearTimeout i s);
          (i, s2) = setTimeout ResizeFire 250 s1
      in s2\<lparr>resizeTimeout := Some i\<rparr>)"

subsection \<open>The scheduler\<close>

fun run_callback :: "callback \<Rightarrow> controller \<Rightarrow> controller" where
  "run_callback FrameOuter s = requestAnimationFrame FrameInner s"
| "run_callback FrameInner s = commitSlide s"
| "run_callback (Settle el) s = settle el s"
| "run_callback ResizeFire s = resizeFire s"

definition animation_frame :: "controller \<Rightarrow> controller" where
  \<comment> \<open>one frame boundary: the requests queued so far run; what they request waits for the next\<close>
  "animation_frame s =
     foldl (\<lambda>s' cb. run_callback cb s') (s\<lparr>frame_requests := []\<rparr>) (frame_requests s)"

definition fire :: "controller \<Rightarrow> timer \<Rightarrow> controller" where
  "fire s tm = run_callback (action tm) (s\<lparr>clock := max (clock s) (due tm)\<rparr>)"

definition elapse :: "nat \<Rightarrow> controller \<Rightarrow> controller" where
  \<comment> \<open>\<open>d\<close> milliseconds pass: the timers that fall due fire in order of their due time\<close>
  "elapse d s =
     (let t = clock s + d;
          ready = filter (\<lambda>tm. due tm \<le> t) (timers s);
          s1 = s\<lparr>timers := filter (\<lambda>tm. \<not> due tm \<le> t) (timers s)\<rparr>
      in (foldl fire s1 ready)\<lparr>clock := t\<rparr>)"

text \<open>
  No timer callback of this program sets or clears a timer, so the timers that fire
  within the interval are those pending at its start.
\<close>

subsection \<open>Construction\<close>

definition chart_ids :: "string list" where
  "chart_ids =
     [''skillsChart'',
      ''qualificationsChart'', ''approachChart'', ''methodologyChart'', ''serviceChart'',
      ''satisfactionChart'', ''responseTimeChart'', ''skillsChart2'', ''successChart'',
      ''techRadarChart'']"

fun registry_set :: "string \<Rightarrow> chart \<Rightarrow> (string \<times> chart) list \<Rightarrow> (string \<times> chart) list" where
  "registry_set k c [] = [(k, c)]"
| "registry_set k c ((k', c') # reg) =
     (if k' = k then (k, c) # reg else (k', c') # registry_set k c reg)"

fun createCharts ::
  "controller \<Rightarrow> string list \<Rightarrow> (string \<times> chart) list \<Rightarrow> exn option \<times> (string \<times> chart) list" where
  "createCharts s [] reg = (None, reg)"
| "createCharts s (k # ks) reg =
     (if k \<in> set (canvases s) \<and> chart_library s
      then if chart_throws s k then (Some ChartError, reg)
           else createCharts s ks (registry_set k \<lparr>resize_calls = 0\<rparr> reg)
      else createCharts s ks reg)"

definition initCharts :: "controller \<Rightarrow> exn + controller" where
  "initCharts s =
     (case createCharts s chart_ids (charts s) of
        (None, reg) \<Rightarrow> Inr (s\<lparr>charts := reg\<rparr>)
      | (Some e, reg) \<Rightarrow>
          Inr (s\<lparr>charts := reg,
                 console := console s @ [''Chart.js not available or error initializing charts:'']\<rparr>))"

definition init :: "controller \<Rightarrow> exn + controller" where
  "init s =
     (let s1 = updateButtonStates False (updateProgress (updateSlideCounter s))
      in case initCharts s1 of
           Inl e \<Rightarrow> Inl e
         | Inr s2 \<Rightarrow>
             (case loadProgress s2 of
                Inl e \<Rightarrow> Inl e
              | Inr s3 \<Rightarrow> Inr (showSlide 0 s3)))"

definition PresentationController :: "controller \<Rightarrow> exn + controller" where
  \<comment> \<open>the argument is the document and environment the constructor finds\<close>
  "PresentationController page =
     init (page\<lparr>currentSlide := 0,
                totalSlides := int (length (slides page)),
                isAnimating := False,
                touchStartX := 0, touchStartY := 0, touchStartTime := 0,
                charts := [],
                isMobile := innerWidth page \<le> 768,
                isTablet := 768 < innerWidth page \<and> innerWidth page \<le> 1024,
                resizeTimeout := None\<rparr>)"

text \<open>
  \<^verbatim>\<open>setupEventListeners\<close> wires the handlers above to the document's events and changes
  no field. The chart configurations are static literals handed to the charting library.
\<close>

section \<open>Observations, invariants and scenarios\<close>

definition mark_slide :: "(string set \<Rightarrow> string set) \<Rightarrow> int \<Rightarrow> slide list \<Rightarrow> slide list" where
  \<comment> \<open>apply a class-list change to \<^verbatim>\<open>slides[i]\<close> if that element exists\<close>
  "mark_slide f i xs =
     (case element_at xs i of
        None \<Rightarrow> xs
      | Some j \<Rightarrow> xs[j := (xs ! j)\<lparr>classList := f (classList (xs ! j))\<rparr>])"

definition active_slides :: "controller \<Rightarrow> nat list" where
  \<comment> \<open>the positions of the slides that carry the \<^verbatim>\<open>active\<close> class\<close>
  "active_slides s =
     filter (\<lambda>j. ''active'' \<in> classList (slides s ! j)) [0..<length (slides s)]"

definition controls_ok :: "controller \<Rightarrow> bool" where
  \<comment> \<open>the boundary rule of the two navigation controls\<close>
  "controls_ok s \<longleftrightarrow>
     map_option disabled (prevButton s) = map_option (\<lambda>_. currentSlide s = 0) (prevButton s) \<and>
     map_option disabled (nextButton s) =
       map_option (\<lambda>_. currentSlide s = totalSlides s - 1) (nextButton s)"

definition steady :: "controller \<Rightarrow> bool" where
  \<comment> \<open>an idle controller between transitions, as construction and every completed
      transition leave it\<close>
  "steady s \<longleftrightarrow>
     \<not> isAnimating s \<and> totalSlides s = int (length (slides s)) \<and>
     0 \<le> currentSlide s \<and> currentSlide s < totalSlides s \<and>
     active_slides s = [nat (currentSlide s)] \<and>
     ''exit'' \<notin> classList (slides s ! nat (currentSlide s)) \<and>
     controls_ok s \<and>
     frame_requests s = [] \<and> (\<forall>t \<in> set (timers s). action t = ResizeFire)"

definition full_transition :: "int \<Rightarrow> nat \<Rightarrow> controller \<Rightarrow> controller" where
  \<comment> \<open>\<^verbatim>\<open>goToSlide(target)\<close>, two animation-frame boundaries, then \<open>d\<close> milliseconds\<close>
  "full_transition target d s =
     elapse d (animation_frame (animation_frame (goToSlide target s)))"

definition construct :: "controller \<Rightarrow> controller" where
  \<comment> \<open>the controller that \<^verbatim>\<open>new PresentationController()\<close> yields on a page\<close>
  "construct page = (case PresentationController page of Inr s \<Rightarrow> s | Inl e \<Rightarrow> page)"

definition without_storage :: "controller \<Rightarrow> controller" where
  \<comment> \<open>the state with the storage and the console blanked: everything a navigation
      shows or decides, apart from what was persisted and what was logged\<close>
  "without_storage s =
     s\<lparr>localStorage := \<lparr>items = Map.empty, getItem_throws = None, setItem_throws = None\<rparr>,
       console := []\<rparr>"

fun resize_burst :: "nat list \<Rightarrow> controller \<Rightarrow> controller" where
  \<comment> \<open>window resize events, one more than there are gaps, the gaps in milliseconds\<close>
  "resize_burst [] s = handleResize s"
| "resize_burst (g # gs) s = resize_burst gs (elapse g (handleResize s))"

definition resize_pending :: "controller \<Rightarrow> timer list" where
  \<comment> \<open>the pending timers that will run the resize callback\<close>
  "resize_pending s = filter (\<lambda>t. action t = ResizeFire) (timers s)"

definition resize_tracked :: "controller \<Rightarrow> bool" where
  \<comment> \<open>every pending resize timer is the one whose id \<^verbatim>\<open>resizeTimeout\<close> holds\<close>
  "resize_tracked s \<longleftrightarrow>
     list_all (\<lambda>t. resizeTimeout s = Some (timer_id t) \<and> timer_id t \<noteq> 0) (resize_pending s)"

subsection \<open>Events\<close>

text \<open>
  What the browser can deliver to the page: clicks on the two buttons, keys, touches, a
  direct call of \<^verbatim>\<open>goToSlide\<close> on the global controller, a window resize to a new width, an
  animation frame, the passing of time, the page being hidden or unloaded (both save the
  progress), and a change of the storage from outside. A disabled button delivers no
  click; the model lets the click through to the handler, which allows more than the
  browser does.
\<close>

datatype event =
    Click_prev | Click_next | Key_down string
  | Touch_start int int | Touch_end int int
  | Call_goTo int
  | Window_resize int
  | Frame | Wait nat
  | Page_hidden | Before_unload
  | Storage_changed storage

definition save_on_exit :: "controller \<Rightarrow> controller" where
  "save_on_exit s = (case saveProgress s of Inr s' \<Rightarrow> s' | Inl e \<Rightarrow> s\<lparr>uncaught := uncaught s @ [e]\<rparr>)"

fun deliver :: "event \<Rightarrow> controller \<Rightarrow> controller" where
  "deliver Click_prev s = previousSlide s"
| "deliver Click_next s = nextSlide s"
| "deliver (Key_down key) s = snd (handleKeyboard key s)"
| "deliver (Touch_start x y) s = handleTouchStart x y s"
| "deliver (Touch_end x y) s = snd (handleTouchEnd x y s)"
| "deliver (Call_goTo index) s = goToSlide index s"
| "deliver (Window_resize w) s = handleResize (s\<lparr>innerWidth := w\<rparr>)"
| "deliver Frame s = animation_frame s"
| "deliver (Wait d) s = elapse d s"
| "deliver Page_hidden s = save_on_exit s"
| "deliver Before_unload s = save_on_exit s"
| "deliver (Storage_changed st) s = s\<lparr>localStorage := st\<rparr>"

definition run_events :: "event list \<Rightarrow> controller \<Rightarrow> controller" where
  "run_events evs s = foldl (\<lambda>s' ev. deliver ev s') s evs"

text \<open>
  The invariant of the controller under these events. Timer ids are never reused and
  the id in \<^verbatim>\<open>resizeTimeout\<close> belongs to a resize timer; the controller is idle and shows
  its current slide, or waits for one of the two frame callbacks with no slide active,
  or has committed the new slide and waits for the one settle timer.
\<close>

definition settles :: "controller \<Rightarrow> timer list" where
  "settles s = filter (\<lambda>t. action t \<noteq> ResizeFire) (timers s)"

definition ids_ok :: "controller \<Rightarrow> bool" where
  "ids_ok s \<longleftrightarrow>
     (\<forall>t \<in> set (timers s). timer_id t \<le> timer_seq s \<and>
        (action t = ResizeFire \<or> action t = Settle (Some (nat (currentSlide s))))) \<and>
     (\<forall>i. resizeTimeout s = Some i \<longrightarrow>
        i \<le> timer_seq s \<and> (\<forall>t \<in> set (timers s). timer_id t = i \<longrightarrow> action t = ResizeFire))"

definition shown_current :: "controller \<Rightarrow> bool" where
  "shown_current s \<longleftrightarrow>
     active_slides s = [nat (currentSlide s)] \<and>
     ''exit'' \<notin> classList (slides s ! nat (currentSlide s))"

definition phase_ok :: "controller \<Rightarrow> bool" where
  "phase_ok s \<longleftrightarrow>
     (\<not> isAnimating s \<and> frame_requests s = [] \<and> settles s = [] \<and> shown_current s \<and> controls_ok s) \<or>
     (isAnimating s \<and> (frame_requests s = [FrameOuter] \<or> frame_requests s = [FrameInner]) \<and>
        settles s = [] \<and> active_slides s = []) \<or>
     (isAnimating s \<and> frame_requests s = [] \<and> length (settles s) = 1 \<and> shown_current s)"

definition coherent :: "controller \<Rightarrow> bool" where
  "coherent s \<longleftrightarrow>
     totalSlides s = int (length (slides s)) \<and>
     0 \<le> currentSlide s \<and> currentSlide s < totalSlides s \<and> ids_ok s \<and> phase_ok s"

definition settling :: "controller \<Rightarrow> bool" where
  \<comment> \<open>the third phase once its settle timer has been taken off the pending list to fire\<close>
  "settling s \<longleftrightarrow>
     totalSlides s = int (length (slides s)) \<and>
     0 \<le> currentSlide s \<and> currentSlide s < totalSlides s \<and> ids_ok s \<and>
     isAnimating s \<and> frame_requests s = [] \<and> settles s = [] \<and> shown_current s"

subsection \<open>An example deck\<close>

definition demo_storage :: "string option \<Rightarrow> storage" where
  "demo_storage v =
     \<lparr>items = (\<lambda>k. if k = ''presentationProgress'' then v else None),
      getItem_throws = None, setItem_throws = None\<rparr>"

definition demo_page :: "nat \<Rightarrow> storage \<Rightarrow> controller" where
  "demo_page n st =
     \<lparr>slides = replicate n \<lparr>classList = {''slide''}, transition = ''''\<rparr>,
      currentSlide = 0, totalSlides = 0, isAnimating = False,
      currentSlideElement = Some ''1'', totalSlidesElement = Some ''1'',
      prevButton = Some \<lparr>disabled = False, button_classes = {''nav-button'', ''prev''}\<rparr>,
      nextButton = Some \<lparr>disabled = False, button_classes = {''nav-button'', ''next''}\<rparr>,
      progressFill = Some (Finite 0 0),
      touchStartX = 0, touchStartY = 0, touchStartTime = 0,
      charts = [], isMobile = False, isTablet = False, resizeTimeout = None,
      localStorage = st, console = [], uncaught = [], focused = None,
      innerWidth = 1280, canvases = [''skillsChart'', ''techRadarChart''],
      chart_library = True, chart_throws = (\<lambda>_. False),
      clock = 0, timer_seq = 0, timers = [], frame_requests = []\<rparr>"

definition demo_deck :: controller where
  \<comment> \<open>five slides, empty storage, freshly constructed\<close>
  "demo_deck = construct (demo_page 5 (demo_storage None))"

definition demo_mid :: controller where
  \<comment> \<open>the example deck after a completed transition to its third slide\<close>
  "demo_mid = full_transition 2 600 demo_deck"

definition demo_gesture :: "nat \<Rightarrow> controller" where
  \<comment> \<open>a finger went down at (200, 300) on \<open>demo_mid\<close>, \<open>dt\<close> milliseconds ago\<close>
  "demo_gesture dt = elapse dt (handleTouchStart 200 300 demo_mid)"

definition demo_loading :: "string option \<Rightarrow> controller" where
  \<comment> \<open>a five-slide controller at the point where \<^verbatim>\<open>init\<close> calls \<^verbatim>\<open>loadProgress\<close>,
      with the given stored value\<close>
  "demo_loading v = (demo_page 5 (demo_storage v))\<lparr>totalSlides := 5\<rparr>"

definition demo_full_storage :: storage where
  \<comment> \<open>an empty store whose every write throws\<close>
  "demo_full_storage = (demo_storage None)\<lparr>setItem_throws := Some QuotaExceededError\<rparr>"

section \<open>Each operation as one record update\<close>

lemma updateProgress_nf:
  "updateProgress s =
     s\<lparr>progressFill := map_option (\<lambda>_. percentage (currentSlide s) (totalSlides s)) (progressFill s)\<rparr>"
  by (cases "progressFill s") (simp_all add: updateProgress_def)

lemma updateSlideCounter_nf:
  "updateSlideCounter s =
     s\<lparr>currentSlideElement := map_option (\<lambda>_. toString (currentSlide s + 1)) (currentSlideElement s),
       totalSlidesElement := map_option (\<lambda>_. toString (totalSlides s)) (totalSlidesElement s)\<rparr>"
  by (cases "currentSlideElement s"; cases "totalSlidesElement s")
     (simp_all add: updateSlideCounter_def)

lemma updateButtonStates_nf:
  "updateButtonStates d s =
     s\<lparr>prevButton := map_option (set_disabled (d \<or> currentSlide s = 0)) (prevButton s),
       nextButton := map_option (set_disabled (d \<or> currentSlide s = totalSlides s - 1)) (nextButton s)\<rparr>"
  by (cases "prevButton s"; cases "nextButton s")
     (simp_all add: updateButtonStates_def)

lemma showSlide_nf:
  "showSlide index s =
     s\<lparr>slides := map (\<lambda>(i, sl).
                    let cs = remove_class ''exit'' (remove_class ''active'' (classList sl))
                    in sl\<lparr>classList := (if int i = index then add_class ''active'' cs else cs)\<rparr>)
                  (enumerate 0 (slides s)),
       currentSlide := index,
       progressFill := map_option (\<lambda>_. percentage index (totalSlides s)) (progressFill s),
       currentSlideElement := map_option (\<lambda>_. toString (index + 1)) (currentSlideElement s),
       totalSlidesElement := map_option (\<lambda>_. toString (totalSlides s)) (totalSlidesElement s),
       prevButton := map_option (set_disabled (index = 0)) (prevButton s),
       nextButton := map_option (set_disabled (index = totalSlides s - 1)) (nextButton s)\<rparr>"
  by (simp add: showSlide_def updateProgress_nf updateSlideCounter_nf updateButtonStates_nf)

lemma saveProgress_nf:
  "saveProgress s =
     Inr (s\<lparr>localStorage :=
              (case setItem_throws (localStorage s) of
                 None \<Rightarrow> (localStorage s)\<lparr>items := (items (localStorage s))
                            (''presentationProgress'' \<mapsto> toString (currentSlide s))\<rparr>
               | Some e \<Rightarrow> localStorage s),
            console :=
              (case setItem_throws (localStorage s) of
                 None \<Rightarrow> console s
               | Some e \<Rightarrow> console s @ [''Could not save progress:''])\<rparr>)"
  by (cases "setItem_throws (localStorage s)") (simp_all add: saveProgress_def setItem_def)

lemma loadProgress_nf:
  "loadProgress s =
     Inr (s\<lparr>currentSlide :=
              (case getItem_throws (localStorage s) of
                 Some e \<Rightarrow> currentSlide s
               | None \<Rightarrow>
                   (case items (localStorage s) ''presentationProgress'' of
                      None \<Rightarrow> currentSlide s
                    | Some str \<Rightarrow>
                        (case parseInt str of
                           None \<Rightarrow> currentSlide s
                         | Some k \<Rightarrow> if 0 \<le> k \<and> k < totalSlides s then k else currentSlide s))),
            console :=
              (case getItem_throws (localStorage s) of
                 None \<Rightarrow> console s
               | Some e \<Rightarrow> console s @ [''Could not load progress:''])\<rparr>)"
  by (simp add: loadProgress_def getItem_def split: option.splits)

lemma goToSlide_nf:
  assumes "\<not> isAnimating s" "0 \<le> index" "index < totalSlides s"
  shows "goToSlide index s =
     s\<lparr>isAnimating := True,
       prevButton := map_option (set_disabled True) (prevButton s),
       nextButton := map_option (set_disabled True) (nextButton s),
       slides := mark_slide (\<lambda>cs. add_class ''exit'' (remove_class ''active'' cs))
                   (currentSlide s) (slides s),
       currentSlide := index,
       frame_requests := frame_requests s @ [FrameOuter]\<rparr>"
  using assms
  by (cases "element_at (slides s) (currentSlide s)")
     (simp_all add: goToSlide_def updateButtonStates_nf requestAnimationFrame_def mark_slide_def)

lemma goToSlide_rejects:
  "isAnimating s \<or> index < 0 \<or> totalSlides s \<le> index \<Longrightarrow> goToSlide index s = s"
  by (simp add: goToSlide_def)

lemma commitSlide_nf:
  "commitSlide s =
     s\<lparr>slides := mark_slide (\<lambda>cs. add_class ''active'' (remove_class ''exit'' cs))
                   (currentSlide s) (slides s),
       progressFill := map_option (\<lambda>_. percentage (currentSlide s) (totalSlides s)) (progressFill s),
       currentSlideElement := map_option (\<lambda>_. toString (currentSlide s + 1)) (currentSlideElement s),
       totalSlidesElement := map_option (\<lambda>_. toString (totalSlides s)) (totalSlidesElement s),
       localStorage :=
         (case setItem_throws (localStorage s) of
            None \<Rightarrow> (localStorage s)\<lparr>items := (items (localStorage s))
                       (''presentationProgress'' \<mapsto> toString (currentSlide s))\<rparr>
          | Some e \<Rightarrow> localStorage s),
       console :=
         (case setItem_throws (localStorage s) of
            None \<Rightarrow> console s
          | Some e \<Rightarrow> console s @ [''Could not save progress:'']),
       timer_seq := Suc (timer_seq s),
       timers := insert_timer \<lparr>timer_id = Suc (timer_seq s), due = clock s + 600,
                   action = Settle (element_at (slides s) (currentSlide s))\<rparr> (timers s)\<rparr>"
  by (cases "element_at (slides s) (currentSlide s)"; cases "setItem_throws (localStorage s)")
     (simp_all add: commitSlide_def updateProgress_nf updateSlideCounter_nf saveProgress_nf
        setTimeout_def mark_slide_def Let_def)

lemma settle_nf:
  "settle el s =
     s\<lparr>isAnimating := False,
       prevButton := map_option (set_disabled (currentSlide s = 0)) (prevButton s),
       nextButton := map_option (set_disabled (currentSlide s = totalSlides s - 1)) (nextButton s),
       focused := (case el of None \<Rightarrow> focused s | Some j \<Rightarrow> Some j)\<rparr>"
  by (cases el) (simp_all add: settle_def updateButtonStates_nf)

lemma resizeFire_nf:
  "resizeFire s =
     s\<lparr>isMobile := innerWidth s \<le> 768,
       isTablet := 768 < innerWidth s \<and> innerWidth s \<le> 1024,
       charts := resize_charts (charts s),
       slides := (if innerWidth s \<le> 768
                  then map (\<lambda>sl. sl\<lparr>transition := ''opacity 0.3s ease''\<rparr>) (slides s)
                  else slides s)\<rparr>"
  by (simp add: resizeFire_def optimizeForMobile_def Let_def)

lemma initCharts_nf:
  "initCharts s =
     Inr (s\<lparr>charts := snd (createCharts s chart_ids (charts s)),
            console :=
              (case fst (createCharts s chart_ids (charts s)) of
                 None \<Rightarrow> console s
               | Some e \<Rightarrow> console s @ [''Chart.js not available or error initializing charts:''])\<rparr>)"
  by (cases "createCharts s chart_ids (charts s)")
     (simp add: initCharts_def split: option.splits)

lemma init_fields:
  assumes "init s = Inr s'"
  shows "currentSlide s' = 0"
    and "totalSlides s' = totalSlides s"
    and "isAnimating s' = isAnimating s"
    and "timers s' = timers s"
    and "frame_requests s' = frame_requests s"
    and "localStorage s' = localStorage s"
    and "slides s' = slides (showSlide 0 s)"
    and "clock s' = clock s"
    and "prevButton s' = map_option (set_disabled True) (map_option (set_disabled (currentSlide s = 0)) (prevButton s))"
    and "nextButton s' = map_option (set_disabled (0 = totalSlides s - 1))
           (map_option (set_disabled (currentSlide s = totalSlides s - 1)) (nextButton s))"
    and "touchStartX s' = touchStartX s"
    and "touchStartY s' = touchStartY s"
    and "touchStartTime s' = touchStartTime s"
  using assms
  by (auto simp add: init_def initCharts_nf loadProgress_nf showSlide_nf
       updateProgress_nf updateSlideCounter_nf updateButtonStates_nf Let_def option.map_comp)

lemma init_progress:
  assumes "init s = Inr s'"
  shows "map_option (\<lambda>_. ()) (progressFill s') = map_option (\<lambda>_. ()) (progressFill s)"
  using assms
  by (auto simp add: init_def initCharts_nf loadProgress_nf showSlide_nf
       updateProgress_nf updateSlideCounter_nf updateButtonStates_nf Let_def option.map_comp
       comp_def)

lemma init_total: "\<exists>s'. init s = Inr s'"
  by (simp add: init_def initCharts_nf loadProgress_nf Let_def)

lemma PresentationController_total: "\<exists>s'. PresentationController page = Inr s'"
  unfolding PresentationController_def by (rule init_total)

lemma construct_eq: "PresentationController page = Inr (construct page)"
  using PresentationController_total [of page] by (auto simp add: construct_def)

section \<open>Slides, timers and frames\<close>

lemma filter_upt_single: "c < n \<Longrightarrow> filter (\<lambda>j. j = c) [0..<n] = [c]"
proof (induction n)
  case 0
  then show ?case by simp
next
  case (Suc n)
  show ?case
  proof (cases "c = n")
    case True
    have "filter (\<lambda>j. j = n) [0..<n] = []" by (simp add: filter_empty_conv)
    with True show ?thesis by simp
  next
    case False
    with Suc show ?thesis by simp
  qed
qed

lemma filter_upt_eq_single:
  "filter P [0..<n] = [c] \<longleftrightarrow> c < n \<and> (\<forall>j<n. P j \<longleftrightarrow> j = c)"
proof
  assume "filter P [0..<n] = [c]"
  then have "set (filter P [0..<n]) = {c}" by simp
  then have "{j. j < n \<and> P j} = {c}" by (simp add: conj_commute)
  then show "c < n \<and> (\<forall>j<n. P j \<longleftrightarrow> j = c)" by blast
next
  assume h: "c < n \<and> (\<forall>j<n. P j \<longleftrightarrow> j = c)"
  then have "filter P [0..<n] = filter (\<lambda>j. j = c) [0..<n]"
    by (intro filter_cong) auto
  with h show "filter P [0..<n] = [c]" by (simp add: filter_upt_single)
qed

lemma length_mark_slide [simp]: "length (mark_slide f i xs) = length xs"
  by (simp add: mark_slide_def split: option.splits)

lemma classList_mark_slide:
  "j < length xs \<Longrightarrow>
   classList (mark_slide f i xs ! j) =
     (if 0 \<le> i \<and> i < int (length xs) \<and> j = nat i then f (classList (xs ! j))
      else classList (xs ! j))"
  by (auto simp add: mark_slide_def element_at_def nth_list_update)

lemma classes_eq_nth:
  assumes "map classList xs = map classList ys" and "j < length ys"
  shows "classList (xs ! j) = classList (ys ! j)"
proof -
  have len: "length xs = length ys"
    using assms(1) by (rule map_eq_imp_length_eq)
  with assms(2) have "map classList xs ! j = classList (xs ! j)"
    and "map classList ys ! j = classList (ys ! j)" by simp_all
  with assms(1) show ?thesis by simp
qed

lemma active_slides_cong:
  assumes "map classList (slides a) = map classList (slides b)"
  shows "active_slides a = active_slides b"
proof -
  have len: "length (slides a) = length (slides b)"
    using assms by (rule map_eq_imp_length_eq)
  show ?thesis
    unfolding active_slides_def len
    by (intro filter_cong) (auto simp add: classes_eq_nth [OF assms])
qed

lemma classList_shown:
  assumes "j < length (slides s)"
  shows "classList (slides (showSlide index s) ! j) =
           (if int j = index
            then add_class ''active''
                   (remove_class ''exit'' (remove_class ''active'' (classList (slides s ! j))))
            else remove_class ''exit'' (remove_class ''active'' (classList (slides s ! j))))"
  using assms by (simp add: showSlide_nf nth_enumerate_eq Let_def)

lemma animation_frame_single:
  "frame_requests s = [cb] \<Longrightarrow> animation_frame s = run_callback cb (s\<lparr>frame_requests := []\<rparr>)"
  by (simp add: animation_frame_def)

lemma set_insert_timer [simp]: "set (insert_timer t ts) = insert t (set ts)"
  by (induction ts) auto

lemma elapse_no_timers: "timers s = [] \<Longrightarrow> elapse d s = s\<lparr>clock := clock s + d\<rparr>"
  by (cases s) (simp add: elapse_def)

lemma fire_nav:
  assumes "action t = ResizeFire \<or> action t = Settle el"
  shows "currentSlide (fire s t) = currentSlide s"
    and "totalSlides (fire s t) = totalSlides s"
    and "map classList (slides (fire s t)) = map classList (slides s)"
  using assms by (auto simp add: fire_def resizeFire_nf settle_nf)

lemma fire_settle_idle:
  assumes "action t = Settle el"
  shows "\<not> isAnimating (fire s t) \<and> controls_ok (fire s t)"
  using assms by (auto simp add: fire_def settle_nf controls_ok_def set_disabled_def option.map_comp comp_def)

lemma fire_resize_idle:
  assumes "action t = ResizeFire" "\<not> isAnimating s \<and> controls_ok s"
  shows "\<not> isAnimating (fire s t) \<and> controls_ok (fire s t)"
  using assms by (auto simp add: fire_def resizeFire_nf controls_ok_def)

lemma fire_pending:
  assumes "action t = ResizeFire \<or> action t = Settle el"
  shows "timers (fire s t) = timers s" and "frame_requests (fire s t) = frame_requests s"
    and "map_option (\<lambda>_. ()) (prevButton (fire s t)) = map_option (\<lambda>_. ()) (prevButton s)"
    and "map_option (\<lambda>_. ()) (nextButton (fire s t)) = map_option (\<lambda>_. ()) (nextButton s)"
    and "localStorage (fire s t) = localStorage s"
    and "progressFill (fire s t) = progressFill s"
  using assms by (auto simp add: fire_def resizeFire_nf settle_nf option.map_comp comp_def)

lemma foldl_fire_nav:
  assumes "\<forall>t \<in> set ts. action t = ResizeFire \<or> action t = Settle el"
  shows "currentSlide (foldl fire s ts) = currentSlide s \<and>
         totalSlides (foldl fire s ts) = totalSlides s \<and>
         map classList (slides (foldl fire s ts)) = map classList (slides s) \<and>
         timers (foldl fire s ts) = timers s \<and>
         frame_requests (foldl fire s ts) = frame_requests s \<and>
         map_option (\<lambda>_. ()) (prevButton (foldl fire s ts)) = map_option (\<lambda>_. ()) (prevButton s) \<and>
         map_option (\<lambda>_. ()) (nextButton (foldl fire s ts)) = map_option (\<lambda>_. ()) (nextButton s) \<and>
         localStorage (foldl fire s ts) = localStorage s \<and>
         progressFill (foldl fire s ts) = progressFill s"
  using assms
proof (induction ts arbitrary: s)
  case Nil
  then show ?case by simp
next
  case (Cons t ts)
  then have t: "action t = ResizeFire \<or> action t = Settle el" by simp
  from Cons have
    "currentSlide (foldl fire (fire s t) ts) = currentSlide (fire s t) \<and>
     totalSlides (foldl fire (fire s t) ts) = totalSlides (fire s t) \<and>
     map classList (slides (foldl fire (fire s t) ts)) = map classList (slides (fire s t)) \<and>
     timers (foldl fire (fire s t) ts) = timers (fire s t) \<and>
     frame_requests (foldl fire (fire s t) ts) = frame_requests (fire s t) \<and>
     map_option (\<lambda>_. ()) (prevButton (foldl fire (fire s t) ts)) =
       map_option (\<lambda>_. ()) (prevButton (fire s t)) \<and>
     map_option (\<lambda>_. ()) (nextButton (foldl fire (fire s t) ts)) =
       map_option (\<lambda>_. ()) (nextButton (fire s t)) \<and>
     localStorage (foldl fire (fire s t) ts) = localStorage (fire s t) \<and>
     progressFill (foldl fire (fire s t) ts) = progressFill (fire s t)"
    by simp
  with fire_nav [OF t] fire_pending [OF t] show ?case by simp
qed

lemma foldl_fire_idle:
  assumes "\<forall>t \<in> set ts. action t = ResizeFire \<or> action t = Settle el"
    and "(\<not> isAnimating s \<and> controls_ok s) \<or> (\<exists>t \<in> set ts. action t = Settle el)"
  shows "\<not> isAnimating (foldl fire s ts) \<and> controls_ok (foldl fire s ts)"
  using assms
proof (induction ts arbitrary: s)
  case Nil
  then show ?case by simp
next
  case (Cons t ts)
  from Cons.prems(1) have t: "action t = ResizeFire \<or> action t = Settle el"
    and ts: "\<forall>u \<in> set ts. action u = ResizeFire \<or> action u = Settle el" by simp_all
  have "(\<not> isAnimating (fire s t) \<and> controls_ok (fire s t)) \<or>
        (\<exists>u \<in> set ts. action u = Settle el)"
  proof (cases "action t = Settle el")
    case True
    then show ?thesis using fire_settle_idle by blast
  next
    case False
    with t have r: "action t = ResizeFire" by simp
    show ?thesis
    proof (cases "\<not> isAnimating s \<and> controls_ok s")
      case True
      with r show ?thesis using fire_resize_idle by blast
    next
      case False
      with Cons.prems(2) r show ?thesis by auto
    qed
  qed
  with Cons.IH [OF ts] show ?case by simp
qed

lemma elapse_nav:
  assumes "\<forall>t \<in> set (timers s). action t = ResizeFire \<or> action t = Settle el"
  shows "currentSlide (elapse d s) = currentSlide s"
    and "totalSlides (elapse d s) = totalSlides s"
    and "map classList (slides (elapse d s)) = map classList (slides s)"
    and "timers (elapse d s) = filter (\<lambda>tm. \<not> due tm \<le> clock s + d) (timers s)"
    and "frame_requests (elapse d s) = frame_requests s"
    and "map_option (\<lambda>_. ()) (prevButton (elapse d s)) = map_option (\<lambda>_. ()) (prevButton s)"
    and "map_option (\<lambda>_. ()) (nextButton (elapse d s)) = map_option (\<lambda>_. ()) (nextButton s)"
    and "localStorage (elapse d s) = localStorage s"
    and "progressFill (elapse d s) = progressFill s"
  using foldl_fire_nav [of "filter (\<lambda>tm. due tm \<le> clock s + d) (timers s)" el
      "s\<lparr>timers := filter (\<lambda>tm. \<not> due tm \<le> clock s + d) (timers s)\<rparr>"] assms
  by (simp_all add: elapse_def Let_def)

lemma elapse_idle:
  assumes "\<forall>t \<in> set (timers s). action t = ResizeFire \<or> action t = Settle el"
    and "\<exists>t \<in> set (timers s). action t = Settle el \<and> due t \<le> clock s + d"
  shows "\<not> isAnimating (elapse d s) \<and> controls_ok (elapse d s)"
proof -
  let ?ready = "filter (\<lambda>tm. due tm \<le> clock s + d) (timers s)"
  let ?s1 = "s\<lparr>timers := filter (\<lambda>tm. \<not> due tm \<le> clock s + d) (timers s)\<rparr>"
  have a: "\<forall>t \<in> set ?ready. action t = ResizeFire \<or> action t = Settle el"
    using assms(1) by simp
  have b: "\<exists>t \<in> set ?ready. action t = Settle el"
    using assms(2) by auto
  have "\<not> isAnimating (foldl fire ?s1 ?ready) \<and> controls_ok (foldl fire ?s1 ?ready)"
    using foldl_fire_idle [OF a] b by blast
  then show ?thesis by (simp add: elapse_def Let_def controls_ok_def)
qed

section \<open>Construction and completed transitions\<close>

lemma constructed_steady:
  assumes "slides page \<noteq> []"
    and "frame_requests page = []" and "\<forall>t \<in> set (timers page). action t = ResizeFire"
  shows "steady (construct page)" and "currentSlide (construct page) = 0"
    and "totalSlides (construct page) = int (length (slides page))"
proof -
  define p where "p = page\<lparr>currentSlide := 0,
                totalSlides := int (length (slides page)),
                isAnimating := False,
                touchStartX := 0, touchStartY := 0, touchStartTime := 0,
                charts := [],
                isMobile := innerWidth page \<le> 768,
                isTablet := 768 < innerWidth page \<and> innerWidth page \<le> 1024,
                resizeTimeout := None\<rparr>"
  define s where "s = construct page"
  have "init p = Inr s"
    using construct_eq [of page] by (simp add: PresentationController_def p_def s_def)
  note f = init_fields [OF this]
  have sp: "slides p = slides page" by (simp add: p_def)
  have ss: "slides s = slides (showSlide 0 p)" by (simp add: f(7))
  have len: "length (slides s) = length (slides page)"
    by (simp add: ss showSlide_nf sp)
  have cl: "classList (slides s ! j) =
      (if j = 0 then insert ''active'' (classList (slides page ! j) - {''active''} - {''exit''})
       else classList (slides page ! j) - {''active''} - {''exit''})"
    if "j < length (slides s)" for j
  proof -
    from that have "j < length (slides p)" by (simp add: len sp)
    from classList_shown [OF this, of 0] show ?thesis
      by (simp add: ss sp add_class_def remove_class_def)
  qed
  have "\<forall>j<length (slides s). ''active'' \<in> classList (slides s ! j) \<longleftrightarrow> j = 0"
    by (simp add: cl)
  then have act: "active_slides s = [0]"
    using assms(1) len by (simp add: active_slides_def filter_upt_eq_single)
  have ex: "''exit'' \<notin> classList (slides s ! 0)"
    using assms(1) len by (simp add: cl)
  have ctl: "controls_ok s"
    by (simp add: controls_ok_def f set_disabled_def p_def option.map_comp comp_def)
  show "steady (construct page)"
    using assms len act ex ctl by (simp add: steady_def f s_def [symmetric] p_def)
  show "currentSlide (construct page) = 0" by (simp add: f s_def [symmetric])
  show "totalSlides (construct page) = int (length (slides page))"
    by (simp add: f s_def [symmetric] p_def)
qed

lemma committed:
  assumes "\<not> isAnimating s" "0 \<le> target" "target < totalSlides s" "frame_requests s = []"
  shows "animation_frame (animation_frame (goToSlide target s)) =
           commitSlide (goToSlide target s\<lparr>frame_requests := []\<rparr>)"
proof -
  have a: "frame_requests (goToSlide target s) = [FrameOuter]"
    using assms by (simp add: goToSlide_nf)
  have b: "animation_frame (goToSlide target s) =
           goToSlide target s\<lparr>frame_requests := [FrameInner]\<rparr>"
    using animation_frame_single [OF a] by (simp add: requestAnimationFrame_def)
  show ?thesis
    by (simp add: b animation_frame_single)
qed

lemma committed_fields:
  assumes "\<not> isAnimating s" "0 \<le> target" "target < totalSlides s"
  defines "s2 \<equiv> commitSlide (goToSlide target s\<lparr>frame_requests := []\<rparr>)"
  shows "currentSlide s2 = target"
    and "totalSlides s2 = totalSlides s"
    and "slides s2 =
           mark_slide (\<lambda>cs. add_class ''active'' (remove_class ''exit'' cs)) target
             (mark_slide (\<lambda>cs. add_class ''exit'' (remove_class ''active'' cs))
                (currentSlide s) (slides s))"
    and "timers s2 =
           insert_timer \<lparr>timer_id = Suc (timer_seq s), due = clock s + 600,
              action = Settle (element_at (slides s) target)\<rparr> (timers s)"
    and "clock s2 = clock s"
    and "frame_requests s2 = []"
    and "map_option (\<lambda>_. ()) (prevButton s2) = map_option (\<lambda>_. ()) (prevButton s)"
    and "map_option (\<lambda>_. ()) (nextButton s2) = map_option (\<lambda>_. ()) (nextButton s)"
    and "localStorage s2 =
           (case setItem_throws (localStorage s) of
              None \<Rightarrow> (localStorage s)\<lparr>items := (items (localStorage s))
                         (''presentationProgress'' \<mapsto> toString target)\<rparr>
            | Some e \<Rightarrow> localStorage s)"
    and "progressFill s2 = map_option (\<lambda>_. percentage target (totalSlides s)) (progressFill s)"
  using assms(1-3) unfolding s2_def
  by (simp_all add: goToSlide_nf commitSlide_nf element_at_def option.map_comp comp_def
        cong: option.case_cong)

lemma transition_result:
  assumes "steady s" and "0 \<le> target" and "target < totalSlides s" and "600 \<le> d"
  defines "s' \<equiv> full_transition target d s"
  shows "\<not> isAnimating s'"
    and "currentSlide s' = target"
    and "totalSlides s' = totalSlides s"
    and "controls_ok s'"
    and "map classList (slides s') =
           map classList
             (mark_slide (\<lambda>cs. add_class ''active'' (remove_class ''exit'' cs)) target
               (mark_slide (\<lambda>cs. add_class ''exit'' (remove_class ''active'' cs))
                  (currentSlide s) (slides s)))"
    and "frame_requests s' = []"
    and "\<forall>t \<in> set (timers s'). action t = ResizeFire"
    and "map_option (\<lambda>_. ()) (prevButton s') = map_option (\<lambda>_. ()) (prevButton s)"
    and "map_option (\<lambda>_. ()) (nextButton s') = map_option (\<lambda>_. ()) (nextButton s)"
    and "localStorage s' =
           (case setItem_throws (localStorage s) of
              None \<Rightarrow> (localStorage s)\<lparr>items := (items (localStorage s))
                         (''presentationProgress'' \<mapsto> toString target)\<rparr>
            | Some e \<Rightarrow> localStorage s)"
    and "progressFill s' = map_option (\<lambda>_. percentage target (totalSlides s)) (progressFill s)"
proof -
  define s2 where "s2 = commitSlide (goToSlide target s\<lparr>frame_requests := []\<rparr>)"
  from assms(1) have idle: "\<not> isAnimating s" and fr: "frame_requests s = []"
    and tm: "\<forall>t \<in> set (timers s). action t = ResizeFire"
    by (simp_all add: steady_def)
  have ft: "s' = elapse d s2"
    unfolding s'_def full_transition_def s2_def
    using committed [OF idle assms(2,3) fr] by simp
  note f = committed_fields [OF idle assms(2,3), folded s2_def]
  let ?el = "element_at (slides s) target"
  have tms: "\<forall>t \<in> set (timers s2). action t = ResizeFire \<or> action t = Settle ?el"
    using tm by (simp add: f(4))
  have due: "\<exists>t \<in> set (timers s2). action t = Settle ?el \<and> due t \<le> clock s2 + d"
    using assms(4) by (simp add: f(4,5))
  note nav = elapse_nav [OF tms, of d]
  note idle' = elapse_idle [OF tms due]
  show "\<not> isAnimating s'" and "controls_ok s'" using idle' by (simp_all add: ft)
  show "currentSlide s' = target" by (simp add: ft nav f)
  show "totalSlides s' = totalSlides s" by (simp add: ft nav f)
  show "map classList (slides s') =
           map classList
             (mark_slide (\<lambda>cs. add_class ''active'' (remove_class ''exit'' cs)) target
               (mark_slide (\<lambda>cs. add_class ''exit'' (remove_class ''active'' cs))
                  (currentSlide s) (slides s)))"
    by (simp add: ft nav f)
  show "frame_requests s' = []" by (simp add: ft nav f)
  show "\<forall>t \<in> set (timers s'). action t = ResizeFire"
    using tm assms(4) by (auto simp add: ft nav f)
  show "map_option (\<lambda>_. ()) (prevButton s') = map_option (\<lambda>_. ()) (prevButton s)"
    by (simp add: ft nav f)
  show "map_option (\<lambda>_. ()) (nextButton s') = map_option (\<lambda>_. ()) (nextButton s)"
    by (simp add: ft nav f)
  show "localStorage s' =
           (case setItem_throws (localStorage s) of
              None \<Rightarrow> (localStorage s)\<lparr>items := (items (localStorage s))
                         (''presentationProgress'' \<mapsto> toString target)\<rparr>
            | Some e \<Rightarrow> localStorage s)"
    by (simp add: ft nav f)
  show "progressFill s' = map_option (\<lambda>_. percentage target (totalSlides s)) (progressFill s)"
    by (simp add: ft nav f)
qed

lemma controls_disabled:
  assumes "map_option disabled b' = map_option (\<lambda>_. v) b'"
    and "map_option (\<lambda>_. ()) b' = map_option (\<lambda>_. ()) b"
  shows "map_option disabled b' = map_option (\<lambda>_. v) b"
  using assms by (cases b; cases b') simp_all

lemma transition_active:
  assumes "steady s" and "0 \<le> target" and "target < totalSlides s"
  defines "ys \<equiv> mark_slide (\<lambda>cs. add_class ''active'' (remove_class ''exit'' cs)) target
               (mark_slide (\<lambda>cs. add_class ''exit'' (remove_class ''active'' cs))
                  (currentSlide s) (slides s))"
  shows "length ys = length (slides s)"
    and "\<forall>j<length ys. ''active'' \<in> classList (ys ! j) \<longleftrightarrow> j = nat target"
    and "''exit'' \<notin> classList (ys ! nat target)"
proof -
  from assms(1) have len: "totalSlides s = int (length (slides s))"
    and cur: "0 \<le> currentSlide s" "currentSlide s < totalSlides s"
    and act: "active_slides s = [nat (currentSlide s)]"
    by (simp_all add: steady_def)
  from act have c: "\<forall>j<length (slides s).
      ''active'' \<in> classList (slides s ! j) \<longleftrightarrow> j = nat (currentSlide s)"
    by (simp add: active_slides_def filter_upt_eq_single)
  show "length ys = length (slides s)" by (simp add: ys_def)
  show "\<forall>j<length ys. ''active'' \<in> classList (ys ! j) \<longleftrightarrow> j = nat target"
    using c cur assms(2,3) len
    by (auto simp add: ys_def classList_mark_slide add_class_def remove_class_def)
  show "''exit'' \<notin> classList (ys ! nat target)"
    using cur assms(2,3) len
    by (simp add: ys_def classList_mark_slide add_class_def remove_class_def)
qed

lemma transition_steady:
  assumes "steady s" and "0 \<le> target" and "target < totalSlides s" and "600 \<le> d"
  shows "steady (full_transition target d s)"
    and "active_slides (full_transition target d s) = [nat target]"
proof -
  define s' where "s' = full_transition target d s"
  define ys where "ys = mark_slide (\<lambda>cs. add_class ''active'' (remove_class ''exit'' cs)) target
               (mark_slide (\<lambda>cs. add_class ''exit'' (remove_class ''active'' cs))
                  (currentSlide s) (slides s))"
  note r = transition_result [OF assms, folded s'_def]
  note a = transition_active [OF assms(1-3), folded ys_def]
  from assms(1) have len: "totalSlides s = int (length (slides s))" by (simp add: steady_def)
  have m: "map classList (slides s') = map classList ys" using r(5) by (simp add: ys_def)
  then have l: "length (slides s') = length ys" by (rule map_eq_imp_length_eq)
  have t: "nat target < length ys" using assms(2,3) len a(1) by simp
  have cl: "classList (slides s' ! j) = classList (ys ! j)" if "j < length ys" for j
    using classes_eq_nth [OF m that] .
  have act: "active_slides s' = [nat target]"
    using a(2) t by (simp add: active_slides_def filter_upt_eq_single l cl)
  have ex: "''exit'' \<notin> classList (slides s' ! nat target)"
    using a(3) t by (simp add: cl)
  show "steady (full_transition target d s)"
    using r act ex assms(2,3) len l a(1)
    by (simp add: steady_def s'_def [symmetric])
  show "active_slides (full_transition target d s) = [nat target]"
    using act by (simp add: s'_def)
qed

lemma demo_deck_steady:
  shows "steady demo_deck" and "currentSlide demo_deck = 0" and "totalSlides demo_deck = 5"
  using constructed_steady [of "demo_page 5 (demo_storage None)"]
  by (simp_all add: demo_deck_def demo_page_def)

lemma demo_deck_fields:
  shows "map_option (\<lambda>_. ()) (prevButton demo_deck) = Some ()"
    and "map_option (\<lambda>_. ()) (nextButton demo_deck) = Some ()"
    and "clock demo_deck = 0" and "timers demo_deck = []"
    and "touchStartX demo_deck = 0" and "touchStartY demo_deck = 0"
    and "touchStartTime demo_deck = 0"
    and "localStorage demo_deck = demo_storage None"
    and "map_option (\<lambda>_. ()) (progressFill demo_deck) = Some ()"
proof -
  have i: "init (demo_page 5 (demo_storage None)\<lparr>totalSlides := 5\<rparr>) = Inr demo_deck"
    using construct_eq [of "demo_page 5 (demo_storage None)"]
    by (simp add: PresentationController_def demo_deck_def demo_page_def)
  note f = init_fields [OF i]
  show "map_option (\<lambda>_. ()) (prevButton demo_deck) = Some ()"
    and "map_option (\<lambda>_. ()) (nextButton demo_deck) = Some ()"
    and "clock demo_deck = 0" and "timers demo_deck = []"
    and "touchStartX demo_deck = 0" and "touchStartY demo_deck = 0"
    and "touchStartTime demo_deck = 0"
    and "localStorage demo_deck = demo_storage None"
    and "map_option (\<lambda>_. ()) (progressFill demo_deck) = Some ()"
    by (simp_all add: f init_progress [OF i] demo_page_def)
qed

section \<open>Navigation\<close>

text \<open>
  C2. For every target in range, \<^verbatim>\<open>goToSlide(target)\<close> on an idle controller, followed by two
  animation-frame boundaries and at least the 600ms settle delay, leaves the controller
  idle at the target, with the target the only slide that carries the active mark, the
  previous control disabled exactly at index 0 and the next control disabled exactly at
  the last index.
\<close>

theorem goTo_completes_at_target:
  assumes "steady s" and "0 \<le> target" and "target < totalSlides s" and "600 \<le> d"
  shows "\<not> isAnimating (full_transition target d s) \<and>
         currentSlide (full_transition target d s) = target \<and>
         active_slides (full_transition target d s) = [nat target] \<and>
         map_option disabled (prevButton (full_transition target d s)) =
           map_option (\<lambda>_. target = 0) (prevButton s) \<and>
         map_option disabled (nextButton (full_transition target d s)) =
           map_option (\<lambda>_. target = totalSlides s - 1) (nextButton s)"
proof -
  note r = transition_result [OF assms]
  from r(2-4) have
    "map_option disabled (prevButton (full_transition target d s)) =
       map_option (\<lambda>_. target = 0) (prevButton (full_transition target d s))"
    "map_option disabled (nextButton (full_transition target d s)) =
       map_option (\<lambda>_. target = totalSlides s - 1) (nextButton (full_transition target d s))"
    by (simp_all add: controls_ok_def)
  then show ?thesis
    using r(1,2) transition_steady(2) [OF assms] controls_disabled r(8,9) by blast
qed

theorem goTo_completes_at_target_witness:
  "steady demo_deck \<and> (0::int) \<le> 2 \<and> 2 < totalSlides demo_deck \<and> (600::nat) \<le> 600 \<and>
   \<not> isAnimating (full_transition 2 600 demo_deck) \<and>
   currentSlide (full_transition 2 600 demo_deck) = 2 \<and>
   active_slides (full_transition 2 600 demo_deck) = [2] \<and>
   map_option disabled (prevButton (full_transition 2 600 demo_deck)) = Some False \<and>
   map_option disabled (nextButton (full_transition 2 600 demo_deck)) = Some False"
proof -
  have h: "steady demo_deck" "(0::int) \<le> 2" "2 < totalSlides demo_deck" "(600::nat) \<le> 600"
    by (simp_all add: demo_deck_steady)
  have b: "prevButton demo_deck \<noteq> None" "nextButton demo_deck \<noteq> None"
    using demo_deck_fields(1,2) by auto
  show ?thesis
    using h b goTo_completes_at_target [OF h] by (auto simp add: demo_deck_steady)
qed

text \<open>
  C3. While a transition is in flight (\<^verbatim>\<open>isAnimating\<close>), every navigation request, whether a
  direct jump, next, previous (the two buttons call these), a key or a touch end, returns
  the state it was given: index, slide markings and stored value are untouched, and no
  default action is suppressed.
\<close>

theorem navigation_rejected_while_transitioning:
  assumes "isAnimating s"
  shows "goToSlide index s = s \<and> nextSlide s = s \<and> previousSlide s = s \<and>
         handleKeyboard key s = (False, s) \<and> handleTouchEnd x y s = (False, s)"
  using assms
  by (simp add: goToSlide_def nextSlide_def previousSlide_def handleKeyboard_def
        handleTouchEnd_def)

theorem navigation_rejected_while_transitioning_witness:
  "isAnimating (goToSlide 3 demo_deck) \<and>
   goToSlide 1 (goToSlide 3 demo_deck) = goToSlide 3 demo_deck \<and>
   nextSlide (goToSlide 3 demo_deck) = goToSlide 3 demo_deck \<and>
   previousSlide (goToSlide 3 demo_deck) = goToSlide 3 demo_deck \<and>
   handleKeyboard ''End'' (goToSlide 3 demo_deck) = (False, goToSlide 3 demo_deck) \<and>
   handleTouchEnd 120 305 (goToSlide 3 demo_deck) = (False, goToSlide 3 demo_deck) \<and>
   currentSlide (goToSlide 1 (goToSlide 3 demo_deck)) = 3"
proof -
  have idle: "\<not> isAnimating demo_deck"
    using demo_deck_steady(1) by (simp add: steady_def)
  have nf: "isAnimating (goToSlide 3 demo_deck)" "currentSlide (goToSlide 3 demo_deck) = 3"
    using idle by (simp_all add: goToSlide_nf demo_deck_steady)
  show ?thesis
    using nf navigation_rejected_while_transitioning [OF nf(1), of 1 "''End''" 120 305]
    by simp
qed

text \<open>
  C4. On an idle controller the left arrow and page-up keys call \<^verbatim>\<open>previousSlide\<close>, the right
  arrow, page-down and space keys call \<^verbatim>\<open>nextSlide\<close>, Home jumps to index 0 and End to the
  last index, each after \<^verbatim>\<open>preventDefault\<close>; any other key does nothing; and while a
  transition is in flight every key is ignored, the default action included.
\<close>

theorem keyboard_routing:
  "(\<not> isAnimating s \<longrightarrow>
      (key = ''ArrowLeft'' \<or> key = ''PageUp'' \<longrightarrow>
         handleKeyboard key s = (True, previousSlide s)) \<and>
      (key = ''ArrowRight'' \<or> key = ''PageDown'' \<or> key = '' '' \<longrightarrow>
         handleKeyboard key s = (True, nextSlide s)) \<and>
      (key = ''Home'' \<longrightarrow> handleKeyboard key s = (True, goToSlide 0 s)) \<and>
      (key = ''End'' \<longrightarrow> handleKeyboard key s = (True, goToSlide (totalSlides s - 1) s)) \<and>
      (key \<notin> {''ArrowLeft'', ''PageUp'', ''ArrowRight'', ''PageDown'', '' '', ''Home'', ''End''} \<longrightarrow>
         handleKeyboard key s = (False, s))) \<and>
   (isAnimating s \<longrightarrow> handleKeyboard key s = (False, s))"
  by (auto simp add: handleKeyboard_def)

theorem keyboard_routing_witness:
  "\<not> isAnimating demo_deck \<and>
   handleKeyboard ''PageUp'' demo_deck = (True, previousSlide demo_deck) \<and>
   handleKeyboard '' '' demo_deck = (True, nextSlide demo_deck) \<and>
   handleKeyboard ''Home'' demo_deck = (True, goToSlide 0 demo_deck) \<and>
   handleKeyboard ''End'' demo_deck = (True, goToSlide 4 demo_deck) \<and>
   handleKeyboard ''a'' demo_deck = (False, demo_deck) \<and>
   currentSlide (snd (handleKeyboard ''End'' demo_deck)) = 4 \<and>
   isAnimating (goToSlide 3 demo_deck) \<and>
   handleKeyboard ''Home'' (goToSlide 3 demo_deck) = (False, goToSlide 3 demo_deck)"
proof -
  have idle: "\<not> isAnimating demo_deck"
    using demo_deck_steady(1) by (simp add: steady_def)
  have busy: "isAnimating (goToSlide 3 demo_deck)"
    using idle by (simp add: goToSlide_nf demo_deck_steady)
  have e: "currentSlide (goToSlide 4 demo_deck) = 4"
    using idle by (simp add: goToSlide_nf demo_deck_steady)
  show ?thesis
    using idle busy e
      keyboard_routing [of demo_deck "''PageUp''"] keyboard_routing [of demo_deck "'' ''"]
      keyboard_routing [of demo_deck "''Home''"] keyboard_routing [of demo_deck "''End''"]
      keyboard_routing [of demo_deck "''a''"]
      keyboard_routing [of "goToSlide 3 demo_deck" "''Home''"]
    by (simp add: demo_deck_steady)
qed

text \<open>
  C6. A touch end is taken as a swipe, and makes its one navigation call, exactly when
  the controller is idle, the horizontal displacement is larger in magnitude than the
  vertical one and than 50, and the gesture took less than 500ms. Under those three
  conditions the resulting state is that of one call of \<^verbatim>\<open>previousSlide\<close> for a positive
  horizontal displacement and of one call of \<^verbatim>\<open>nextSlide\<close> for a negative one (a call that
  itself does nothing while a transition is in flight); otherwise the state is returned
  as it was.
\<close>

theorem swipe_recognition:
  assumes "dx = x - touchStartX s" and "dy = y - touchStartY s"
    and "dt = int (clock s) - int (touchStartTime s)"
  shows "(fst (handleTouchEnd x y s) \<longleftrightarrow>
            \<not> isAnimating s \<and> \<bar>dy\<bar> < \<bar>dx\<bar> \<and> 50 < \<bar>dx\<bar> \<and> dt < 500) \<and>
         (\<bar>dy\<bar> < \<bar>dx\<bar> \<and> 50 < \<bar>dx\<bar> \<and> dt < 500 \<and> 0 < dx \<longrightarrow>
            snd (handleTouchEnd x y s) = previousSlide s) \<and>
         (\<bar>dy\<bar> < \<bar>dx\<bar> \<and> 50 < \<bar>dx\<bar> \<and> dt < 500 \<and> dx < 0 \<longrightarrow>
            snd (handleTouchEnd x y s) = nextSlide s) \<and>
         (\<not> (\<bar>dy\<bar> < \<bar>dx\<bar> \<and> 50 < \<bar>dx\<bar> \<and> dt < 500) \<longrightarrow>
            snd (handleTouchEnd x y s) = s)"
  using assms
  by (auto simp add: handleTouchEnd_def Let_def nextSlide_def previousSlide_def
        goToSlide_rejects)

lemma clock_elapse [simp]: "clock (elapse d s) = clock s + d"
  by (simp add: elapse_def Let_def)

lemma demo_mid_facts:
  shows "steady demo_mid" and "currentSlide demo_mid = 2" and "totalSlides demo_mid = 5"
    and "timers demo_mid = []" and "\<not> isAnimating demo_mid"
proof -
  have h: "steady demo_deck" "(0::int) \<le> 2" "2 < totalSlides demo_deck" "(600::nat) \<le> 600"
    by (simp_all add: demo_deck_steady)
  note r = transition_result [OF h, folded demo_mid_def]
  show "steady demo_mid" using transition_steady(1) [OF h] by (simp add: demo_mid_def)
  show "currentSlide demo_mid = 2" by (rule r(2))
  show "totalSlides demo_mid = 5" using r(3) by (simp add: demo_deck_steady)
  show "\<not> isAnimating demo_mid" by (rule r(1))
  have idle: "\<not> isAnimating demo_deck" using h(1) by (simp add: steady_def)
  have fr: "frame_requests demo_deck = []" using h(1) by (simp add: steady_def)
  define s2 where "s2 = commitSlide (goToSlide 2 demo_deck\<lparr>frame_requests := []\<rparr>)"
  note f = committed_fields [OF idle h(2,3), folded s2_def]
  have e: "demo_mid = elapse 600 s2"
    unfolding demo_mid_def full_transition_def s2_def
    using committed [OF idle h(2,3) fr] by simp
  have "\<forall>t \<in> set (timers s2). action t = ResizeFire \<or>
          action t = Settle (element_at (slides demo_deck) 2)"
    by (simp add: f(4) demo_deck_fields)
  from elapse_nav(4) [OF this, of 600] show "timers demo_mid = []"
    by (simp add: e f(4,5) demo_deck_fields)
qed

lemma demo_gesture_eq:
  "demo_gesture dt =
     demo_mid\<lparr>touchStartX := 200, touchStartY := 300, touchStartTime := clock demo_mid,
              clock := clock demo_mid + dt\<rparr>"
  unfolding demo_gesture_def
  by (subst elapse_no_timers) (simp_all add: handleTouchStart_def demo_mid_facts)

lemma demo_gesture_fields:
  shows "\<not> isAnimating (demo_gesture dt)" and "touchStartX (demo_gesture dt) = 200"
    and "touchStartY (demo_gesture dt) = 300"
    and "int (clock (demo_gesture dt)) - int (touchStartTime (demo_gesture dt)) = int dt"
    and "currentSlide (demo_gesture dt) = 2" and "totalSlides (demo_gesture dt) = 5"
  by (simp_all add: demo_gesture_eq demo_mid_facts)

lemma demo_gesture_moves:
  shows "currentSlide (nextSlide (demo_gesture dt)) = 3"
    and "currentSlide (previousSlide (demo_gesture dt)) = 1"
proof -
  have a: "goToSlide 3 (demo_gesture dt) = (demo_gesture dt)
     \<lparr>isAnimating := True,
       prevButton := map_option (set_disabled True) (prevButton (demo_gesture dt)),
       nextButton := map_option (set_disabled True) (nextButton (demo_gesture dt)),
       slides := mark_slide (\<lambda>cs. add_class ''exit'' (remove_class ''active'' cs))
                   (currentSlide (demo_gesture dt)) (slides (demo_gesture dt)),
       currentSlide := 3,
       frame_requests := frame_requests (demo_gesture dt) @ [FrameOuter]\<rparr>"
    by (rule goToSlide_nf) (simp_all add: demo_gesture_fields)
  have b: "goToSlide 1 (demo_gesture dt) = (demo_gesture dt)
     \<lparr>isAnimating := True,
       prevButton := map_option (set_disabled True) (prevButton (demo_gesture dt)),
       nextButton := map_option (set_disabled True) (nextButton (demo_gesture dt)),
       slides := mark_slide (\<lambda>cs. add_class ''exit'' (remove_class ''active'' cs))
                   (currentSlide (demo_gesture dt)) (slides (demo_gesture dt)),
       currentSlide := 1,
       frame_requests := frame_requests (demo_gesture dt) @ [FrameOuter]\<rparr>"
    by (rule goToSlide_nf) (simp_all add: demo_gesture_fields)
  show "currentSlide (nextSlide (demo_gesture dt)) = 3"
    by (simp add: nextSlide_def demo_gesture_fields a)
  show "currentSlide (previousSlide (demo_gesture dt)) = 1"
    by (simp add: previousSlide_def demo_gesture_fields b)
qed

theorem swipe_recognition_witness:
  "fst (handleTouchEnd 120 305 (demo_gesture 200)) \<and>
   snd (handleTouchEnd 120 305 (demo_gesture 200)) = nextSlide (demo_gesture 200) \<and>
   currentSlide (nextSlide (demo_gesture 200)) = 3 \<and>
   fst (handleTouchEnd 280 305 (demo_gesture 200)) \<and>
   snd (handleTouchEnd 280 305 (demo_gesture 200)) = previousSlide (demo_gesture 200) \<and>
   currentSlide (previousSlide (demo_gesture 200)) = 1 \<and>
   \<not> fst (handleTouchEnd 120 305 (demo_gesture 600)) \<and>
   snd (handleTouchEnd 120 305 (demo_gesture 600)) = demo_gesture 600 \<and>
   \<not> fst (handleTouchEnd 205 400 (demo_gesture 200)) \<and>
   snd (handleTouchEnd 205 400 (demo_gesture 200)) = demo_gesture 200"
proof -
  note f = demo_gesture_fields
  have d1: "- 80 = 120 - touchStartX (demo_gesture dt)"
    and d2: "80 = 280 - touchStartX (demo_gesture dt)"
    and d3: "5 = 205 - touchStartX (demo_gesture dt)"
    and e1: "5 = 305 - touchStartY (demo_gesture dt)"
    and e2: "100 = 400 - touchStartY (demo_gesture dt)"
    and t: "int dt = int (clock (demo_gesture dt)) - int (touchStartTime (demo_gesture dt))" for dt
    by (simp_all add: f)
  have a: "fst (handleTouchEnd 120 305 (demo_gesture 200)) \<and>
           snd (handleTouchEnd 120 305 (demo_gesture 200)) = nextSlide (demo_gesture 200)"
    using swipe_recognition [OF d1 e1 t, of 200] f(1) by simp
  have b: "fst (handleTouchEnd 280 305 (demo_gesture 200)) \<and>
           snd (handleTouchEnd 280 305 (demo_gesture 200)) = previousSlide (demo_gesture 200)"
    using swipe_recognition [OF d2 e1 t, of 200] f(1) by simp
  have c: "\<not> fst (handleTouchEnd 120 305 (demo_gesture 600)) \<and>
           snd (handleTouchEnd 120 305 (demo_gesture 600)) = demo_gesture 600"
    using swipe_recognition [OF d1 e1 t, of 600] by simp
  have d: "\<not> fst (handleTouchEnd 205 400 (demo_gesture 200)) \<and>
           snd (handleTouchEnd 205 400 (demo_gesture 200)) = demo_gesture 200"
    using swipe_recognition [OF d3 e2 t, of 200] by simp
  show ?thesis
    using a b c d demo_gesture_moves by simp
qed

lemma constructed_index_zero: "currentSlide (construct page) = 0"
  using init_fields(1) construct_eq [of page] by (simp add: PresentationController_def)

lemma parseInt_examples:
  shows "parseInt ''2.9'' = Some 2" and "parseInt ''2px'' = Some 2"
    and "parseInt ''2'' = Some 2" and "parseInt ''abc'' = None" and "parseInt ''7'' = Some 7"
  by (simp_all add: parseInt_def strip_radix_prefix_def is_digit_def digit_val_def
        digits_value_def is_white_space_def)

lemma toString_2: "toString 2 = ''2''"
  by (simp add: toString_def digits_of.simps)

text \<open>
  C10. \<^verbatim>\<open>loadProgress\<close> adopts the integer that \<^verbatim>\<open>parseInt\<close> reads off the front of the stored
  string whenever that integer is in range, whatever follows it: the stored values
  \<^verbatim>\<open>2.9\<close> and \<^verbatim>\<open>2px\<close> both parse to 2. The index is left as it was (0 at construction)
  in exactly the remaining cases: the read throws, the key is absent, the prefix is
  \<^verbatim>\<open>NaN\<close>, or the parsed integer is out of range.
\<close>

theorem loadProgress_accepts_numeric_prefix:
  "(getItem_throws (localStorage s) = None \<and>
    items (localStorage s) ''presentationProgress'' = Some str \<and>
    parseInt str = Some k \<and> 0 \<le> k \<and> k < totalSlides s \<longrightarrow>
      loadProgress s = Inr (s\<lparr>currentSlide := k\<rparr>)) \<and>
   (getItem_throws (localStorage s) \<noteq> None \<or>
    items (localStorage s) ''presentationProgress'' = None \<or>
    (\<exists>str. items (localStorage s) ''presentationProgress'' = Some str \<and>
       (parseInt str = None \<or> (\<exists>k. parseInt str = Some k \<and> (k < 0 \<or> totalSlides s \<le> k)))) \<longrightarrow>
      map_sum id currentSlide (loadProgress s) = Inr (currentSlide s)) \<and>
   parseInt ''2.9'' = Some 2 \<and> parseInt ''2px'' = Some 2"
  by (auto simp add: loadProgress_def getItem_def parseInt_examples split: option.splits)

theorem loadProgress_accepts_numeric_prefix_witness:
  "loadProgress (demo_loading (Some ''2.9'')) = Inr (demo_loading (Some ''2.9'')\<lparr>currentSlide := 2\<rparr>) \<and>
   loadProgress (demo_loading (Some ''2px'')) = Inr (demo_loading (Some ''2px'')\<lparr>currentSlide := 2\<rparr>) \<and>
   map_sum id currentSlide (loadProgress (demo_loading (Some ''abc''))) = Inr 0 \<and>
   map_sum id currentSlide (loadProgress (demo_loading (Some ''7''))) = Inr 0 \<and>
   map_sum id currentSlide (loadProgress (demo_loading None)) = Inr 0"
proof -
  have f: "getItem_throws (localStorage (demo_loading v)) = None"
    "items (localStorage (demo_loading v)) ''presentationProgress'' = v"
    "totalSlides (demo_loading v) = 5" "currentSlide (demo_loading v) = 0" for v
    by (simp_all add: demo_loading_def demo_page_def demo_storage_def)
  show ?thesis
    using loadProgress_accepts_numeric_prefix [of "demo_loading (Some ''2.9'')" "''2.9''" 2]
      loadProgress_accepts_numeric_prefix [of "demo_loading (Some ''2px'')" "''2px''" 2]
      loadProgress_accepts_numeric_prefix [of "demo_loading (Some ''abc'')"]
      loadProgress_accepts_numeric_prefix [of "demo_loading (Some ''7'')"]
      loadProgress_accepts_numeric_prefix [of "demo_loading None"]
    by (simp add: f parseInt_examples)
qed

lemma digit_char:
  assumes "d < 10"
  shows "digit_val (''0123456789'' ! d) = Some d" and "\<not> is_white_space (''0123456789'' ! d)"
    and "''0123456789'' ! d \<noteq> CHR ''-''" and "''0123456789'' ! d \<noteq> CHR ''+''"
    and "''0123456789'' ! d \<noteq> CHR ''x''" and "''0123456789'' ! d \<noteq> CHR ''X''"
proof -
  from assms consider "d = 0" | "d = 1" | "d = 2" | "d = 3" | "d = 4" | "d = 5" | "d = 6"
    | "d = 7" | "d = 8" | "d = 9" by atomize_elim arith
  then show "digit_val (''0123456789'' ! d) = Some d" and "\<not> is_white_space (''0123456789'' ! d)"
    and "''0123456789'' ! d \<noteq> CHR ''-''" and "''0123456789'' ! d \<noteq> CHR ''+''"
    and "''0123456789'' ! d \<noteq> CHR ''x''" and "''0123456789'' ! d \<noteq> CHR ''X''"
    by (cases; simp add: digit_val_def is_white_space_def)+
qed

lemma digits_of_props:
  shows "digits_of n \<noteq> []"
    and "\<forall>c \<in> set (digits_of n). \<exists>d<10. c = ''0123456789'' ! d"
    and "foldl (\<lambda>acc c. acc * 10 + the (digit_val c)) 0 (digits_of n) = n"
proof (induction n rule: digits_of.induct)
  case (1 n)
  {
    case 1 show ?case by (subst digits_of.simps) simp
  next
    case 2
    then show ?case
      using "1.IH"(2) by (subst digits_of.simps) (auto intro: exI [of _ "n mod 10"] exI [of _ n])
  next
    case 3
    then show ?case
      using "1.IH"(3) by (subst digits_of.simps) (simp add: digit_char)
  }
qed


lemma parseInt_digits_of: "parseInt (digits_of n) = Some (int n)"
proof -
  define ds where "ds = digits_of n"
  have ne: "ds \<noteq> []" and dg: "\<forall>c \<in> set ds. \<exists>d<10. c = ''0123456789'' ! d"
    and v: "digits_value 10 ds = n"
    using digits_of_props [of n] by (simp_all add: ds_def digits_value_def)
  have c: "\<not> is_white_space c" "c \<noteq> CHR ''-''" "c \<noteq> CHR ''+''" "c \<noteq> CHR ''x''"
    "c \<noteq> CHR ''X''" "is_digit 10 c" if "c \<in> set ds" for c
  proof -
    from dg that obtain d where d: "d < 10" "c = ''0123456789'' ! d" by blast
    note dc = digit_char [OF d(1), folded d(2)]
    show "\<not> is_white_space c" "c \<noteq> CHR ''-''" "c \<noteq> CHR ''+''" "c \<noteq> CHR ''x''"
      "c \<noteq> CHR ''X''" by (rule dc)+
    show "is_digit 10 c" using dc(1) d(1) by (simp add: is_digit_def)
  qed
  from ne obtain c1 rest where ds: "ds = c1 # rest" by (cases ds) auto
  have c1: "c1 \<in> set ds" by (simp add: ds)
  have w: "dropWhile is_white_space ds = ds" using c(1) [OF c1] by (simp add: ds)
  have sg: "take 1 ds \<noteq> ''-''" "take 1 ds \<noteq> ''+''" using c(2,3) [OF c1] by (simp_all add: ds)
  have px: "take 2 ds \<noteq> ''0x''" "take 2 ds \<noteq> ''0X''"
  proof -
    have "CHR ''x'' \<notin> set (take 2 ds)" "CHR ''X'' \<notin> set (take 2 ds)"
      using c(4,5) set_take_subset [of 2 ds] by auto
    then show "take 2 ds \<noteq> ''0x''" "take 2 ds \<noteq> ''0X''" by auto
  qed
  have tw: "takeWhile (is_digit 10) ds = ds" using c(6) by (simp add: takeWhile_eq_all_conv)
  have s': "(if take 1 ds = ''-'' \<or> take 1 ds = ''+'' then drop 1 ds else ds) = ds"
    using sg by simp
  have sign: "(if take 1 ds = ''-'' then - 1 else (1::int)) = 1" using sg by simp
  have rp: "strip_radix_prefix ds = (10, ds)" using px by (simp add: strip_radix_prefix_def)
  show ?thesis
    unfolding ds_def [symmetric] parseInt_def Let_def w s' sign rp
    by (simp add: tw ne v)
qed

lemma parseInt_toString: "0 \<le> k \<Longrightarrow> parseInt (toString k) = Some k"
  by (simp add: toString_def parseInt_digits_of)

lemma save_then_load_restores:
  assumes "0 \<le> currentSlide s" and "currentSlide s < totalSlides p"
    and "setItem_throws (localStorage s) = None" and "getItem_throws (localStorage s) = None"
    and "saveProgress s = Inr s1"
  shows "loadProgress (p\<lparr>localStorage := localStorage s1\<rparr>) =
           Inr (p\<lparr>localStorage := localStorage s1, currentSlide := currentSlide s\<rparr>)"
proof -
  from assms(3,5) have st: "localStorage s1 = (localStorage s)\<lparr>items := (items (localStorage s))
      (''presentationProgress'' \<mapsto> toString (currentSlide s))\<rparr>"
    by (auto simp add: saveProgress_nf)
  show ?thesis
    using assms(1,2,4) by (simp add: loadProgress_nf st parseInt_toString)
qed


text \<open>
  C1. The round trip of the persisted index through a fresh controller. What
  \<^verbatim>\<open>saveProgress\<close> stores, \<^verbatim>\<open>loadProgress\<close> reads back (\<open>save_then_load_restores\<close>): a
  completed transition to the third slide of the example deck stores \<^verbatim>\<open>2\<close>, and
  \<^verbatim>\<open>loadProgress\<close> on a five-slide controller with that storage sets the index to 2. But the
  constructor then calls \<^verbatim>\<open>showSlide(0)\<close>: the controller it returns is at index 0, there
  and on every page.
\<close>

theorem restored_index_discarded:
  "currentSlide demo_mid = 2 \<and>
   items (localStorage demo_mid) ''presentationProgress'' = Some ''2'' \<and>
   map_sum id currentSlide (loadProgress (demo_page 5 (localStorage demo_mid)\<lparr>totalSlides := 5\<rparr>))
     = Inr 2 \<and>
   currentSlide (construct (demo_page 5 (localStorage demo_mid))) = 0 \<and>
   currentSlide (construct page) = 0"
proof -
  have h: "steady demo_deck" "(0::int) \<le> 2" "2 < totalSlides demo_deck" "(600::nat) \<le> 600"
    by (simp_all add: demo_deck_steady)
  have st: "localStorage demo_mid =
      (demo_storage None)\<lparr>items := (items (demo_storage None))(''presentationProgress'' \<mapsto> ''2'')\<rparr>"
    unfolding transition_result(10) [OF h, folded demo_mid_def]
    by (simp add: demo_deck_fields(8) toString_2 demo_storage_def)
  have "map_sum id currentSlide (loadProgress (demo_page 5 (localStorage demo_mid)\<lparr>totalSlides := 5\<rparr>))
     = Inr 2"
    by (simp add: loadProgress_nf st demo_page_def demo_storage_def parseInt_examples)
  then show ?thesis
    by (simp add: demo_mid_facts constructed_index_zero) (simp add: st)
qed

lemma jump_to_current_marks:
  assumes "steady s"
  shows "map classList
           (mark_slide (\<lambda>cs. add_class ''active'' (remove_class ''exit'' cs)) (currentSlide s)
             (mark_slide (\<lambda>cs. add_class ''exit'' (remove_class ''active'' cs))
                (currentSlide s) (slides s)))
         = map classList (slides s)"
proof (rule nth_equalityI)
  show "length (map classList
           (mark_slide (\<lambda>cs. add_class ''active'' (remove_class ''exit'' cs)) (currentSlide s)
             (mark_slide (\<lambda>cs. add_class ''exit'' (remove_class ''active'' cs))
                (currentSlide s) (slides s))))
        = length (map classList (slides s))"
    by simp
next
  fix j
  assume "j < length (map classList
           (mark_slide (\<lambda>cs. add_class ''active'' (remove_class ''exit'' cs)) (currentSlide s)
             (mark_slide (\<lambda>cs. add_class ''exit'' (remove_class ''active'' cs))
                (currentSlide s) (slides s))))"
  then have j: "j < length (slides s)" by simp
  from assms have len: "totalSlides s = int (length (slides s))"
    and cur: "0 \<le> currentSlide s" "currentSlide s < totalSlides s"
    and act: "active_slides s = [nat (currentSlide s)]"
    and ex: "''exit'' \<notin> classList (slides s ! nat (currentSlide s))"
    by (simp_all add: steady_def)
  from act have "''active'' \<in> classList (slides s ! nat (currentSlide s))"
    by (simp add: active_slides_def filter_upt_eq_single)
  with ex j show "map classList
           (mark_slide (\<lambda>cs. add_class ''active'' (remove_class ''exit'' cs)) (currentSlide s)
             (mark_slide (\<lambda>cs. add_class ''exit'' (remove_class ''active'' cs))
                (currentSlide s) (slides s))) ! j
        = map classList (slides s) ! j"
    by (auto simp add: classList_mark_slide add_class_def remove_class_def)
qed

text \<open>
  C5. \<^verbatim>\<open>goToSlide(index)\<close> returns the state unchanged, with no error, for every index below 0
  or at or above \<^verbatim>\<open>totalSlides\<close>. On an idle controller every index in range is accepted,
  the current one included: the lock is taken, the index recorded and the first frame
  callback requested. A jump to the current index, once completed, leaves a steady
  controller at the same index with the same slide markings and control states.
\<close>

theorem goTo_range_check:
  "(index < 0 \<or> totalSlides s \<le> index \<longrightarrow> goToSlide index s = s) \<and>
   (\<not> isAnimating s \<and> 0 \<le> index \<and> index < totalSlides s \<longrightarrow>
      isAnimating (goToSlide index s) \<and> currentSlide (goToSlide index s) = index \<and>
      frame_requests (goToSlide index s) = frame_requests s @ [FrameOuter]) \<and>
   (steady s \<and> 600 \<le> d \<longrightarrow>
      steady (full_transition (currentSlide s) d s) \<and>
      currentSlide (full_transition (currentSlide s) d s) = currentSlide s \<and>
      map classList (slides (full_transition (currentSlide s) d s)) = map classList (slides s) \<and>
      map_option disabled (prevButton (full_transition (currentSlide s) d s)) =
        map_option disabled (prevButton s) \<and>
      map_option disabled (nextButton (full_transition (currentSlide s) d s)) =
        map_option disabled (nextButton s))"
proof (intro conjI impI)
  assume "index < 0 \<or> totalSlides s \<le> index"
  then show "goToSlide index s = s" by (simp add: goToSlide_rejects)
next
  assume a: "\<not> isAnimating s \<and> 0 \<le> index \<and> index < totalSlides s"
  then show "isAnimating (goToSlide index s)" by (simp add: goToSlide_nf)
  from a show "currentSlide (goToSlide index s) = index" by (simp add: goToSlide_nf)
  from a show "frame_requests (goToSlide index s) = frame_requests s @ [FrameOuter]"
    by (simp add: goToSlide_nf)
next
  assume a: "steady s \<and> 600 \<le> d"
  then have h: "steady s" "0 \<le> currentSlide s" "currentSlide s < totalSlides s" "600 \<le> d"
    by (simp_all add: steady_def)
  note r = transition_result [OF h]
  from h(1) have c: "controls_ok s" by (simp add: steady_def)
  show "steady (full_transition (currentSlide s) d s)"
    by (rule transition_steady(1) [OF h])
  show "currentSlide (full_transition (currentSlide s) d s) = currentSlide s"
    by (rule r(2))
  show "map classList (slides (full_transition (currentSlide s) d s)) = map classList (slides s)"
    using r(5) jump_to_current_marks [OF h(1)] by simp
  from r(2-4) have p:
    "map_option disabled (prevButton (full_transition (currentSlide s) d s)) =
       map_option (\<lambda>_. currentSlide s = 0) (prevButton (full_transition (currentSlide s) d s))"
    and n: "map_option disabled (nextButton (full_transition (currentSlide s) d s)) =
       map_option (\<lambda>_. currentSlide s = totalSlides s - 1)
         (nextButton (full_transition (currentSlide s) d s))"
    by (simp_all add: controls_ok_def)
  from controls_disabled [OF p r(8)] c
  show "map_option disabled (prevButton (full_transition (currentSlide s) d s)) =
          map_option disabled (prevButton s)"
    by (simp add: controls_ok_def)
  from controls_disabled [OF n r(9)] c
  show "map_option disabled (nextButton (full_transition (currentSlide s) d s)) =
          map_option disabled (nextButton s)"
    by (simp add: controls_ok_def)
qed

theorem goTo_range_check_witness:
  "goToSlide (- 1) demo_mid = demo_mid \<and> goToSlide 5 demo_mid = demo_mid \<and>
   \<not> isAnimating demo_mid \<and>
   isAnimating (goToSlide 4 demo_mid) \<and> currentSlide (goToSlide 4 demo_mid) = 4 \<and>
   isAnimating (goToSlide 2 demo_mid) \<and> currentSlide (goToSlide 2 demo_mid) = 2 \<and>
   steady demo_mid \<and> currentSlide demo_mid = 2 \<and>
   steady (full_transition 2 600 demo_mid) \<and>
   currentSlide (full_transition 2 600 demo_mid) = 2 \<and>
   map classList (slides (full_transition 2 600 demo_mid)) = map classList (slides demo_mid) \<and>
   map_option disabled (prevButton (full_transition 2 600 demo_mid)) =
     map_option disabled (prevButton demo_mid) \<and>
   map_option disabled (nextButton (full_transition 2 600 demo_mid)) =
     map_option disabled (nextButton demo_mid)"
  using goTo_range_check [of "- 1" demo_mid 600] goTo_range_check [of 5 demo_mid 600]
    goTo_range_check [of 4 demo_mid 600] goTo_range_check [of 2 demo_mid 600]
  by (simp add: demo_mid_facts)

section \<open>Persistence failures\<close>

lemma without_storage_eqD:
  assumes "without_storage a = without_storage b"
  shows "b = a\<lparr>localStorage := localStorage b, console := console b\<rparr>"
  using assms by (cases a; cases b) (simp add: without_storage_def)

lemma without_storage_update [simp]:
  "without_storage (s\<lparr>localStorage := st, console := c\<rparr>) = without_storage s"
  by (simp add: without_storage_def)

lemma run_callback_storage:
  "without_storage (run_callback cb (s\<lparr>localStorage := st, console := c\<rparr>)) =
   without_storage (run_callback cb s)"
  by (cases cb)
     (simp_all add: without_storage_def requestAnimationFrame_def commitSlide_nf settle_nf
        resizeFire_nf cong: option.case_cong)

lemma run_callback_cong:
  assumes "without_storage a = without_storage b"
  shows "without_storage (run_callback cb a) = without_storage (run_callback cb b)"
  using run_callback_storage [where cb = cb and s = a and st = "localStorage b" and c = "console b"]
    without_storage_eqD [OF assms]
  by simp

lemma without_storage_fields:
  assumes "without_storage a = without_storage b"
  shows "frame_requests a = frame_requests b" and "timers a = timers b"
    and "clock a = clock b"
  using arg_cong [OF without_storage_eqD [OF assms], of frame_requests]
    arg_cong [OF without_storage_eqD [OF assms], of timers]
    arg_cong [OF without_storage_eqD [OF assms], of clock]
  by simp_all

lemma without_storage_set_cong:
  assumes "without_storage a = without_storage b"
  shows "without_storage (a\<lparr>frame_requests := fr\<rparr>) = without_storage (b\<lparr>frame_requests := fr\<rparr>)"
    and "without_storage (a\<lparr>timers := ts\<rparr>) = without_storage (b\<lparr>timers := ts\<rparr>)"
    and "without_storage (a\<lparr>clock := t\<rparr>) = without_storage (b\<lparr>clock := t\<rparr>)"
proof -
  have f: "without_storage (a\<lparr>frame_requests := fr\<rparr>) = (without_storage a)\<lparr>frame_requests := fr\<rparr>"
    "without_storage (a\<lparr>timers := ts\<rparr>) = (without_storage a)\<lparr>timers := ts\<rparr>"
    "without_storage (a\<lparr>clock := t\<rparr>) = (without_storage a)\<lparr>clock := t\<rparr>" for a
    by (simp_all add: without_storage_def)
  show "without_storage (a\<lparr>frame_requests := fr\<rparr>) = without_storage (b\<lparr>frame_requests := fr\<rparr>)"
    and "without_storage (a\<lparr>timers := ts\<rparr>) = without_storage (b\<lparr>timers := ts\<rparr>)"
    and "without_storage (a\<lparr>clock := t\<rparr>) = without_storage (b\<lparr>clock := t\<rparr>)"
    by (simp_all only: f assms)
qed

lemma foldl_callback_cong:
  assumes "without_storage a = without_storage b"
  shows "without_storage (foldl (\<lambda>s cb. run_callback cb s) a cbs) =
         without_storage (foldl (\<lambda>s cb. run_callback cb s) b cbs)"
  using assms
proof (induction cbs arbitrary: a b)
  case Nil
  then show ?case by simp
next
  case (Cons cb cbs)
  from Cons.IH [OF run_callback_cong [OF Cons.prems]] show ?case by simp
qed

lemma animation_frame_cong:
  assumes "without_storage a = without_storage b"
  shows "without_storage (animation_frame a) = without_storage (animation_frame b)"
  unfolding animation_frame_def without_storage_fields(1) [OF assms]
  by (rule foldl_callback_cong) (rule without_storage_set_cong(1) [OF assms])

lemma fire_cong:
  assumes "without_storage a = without_storage b"
  shows "without_storage (fire a t) = without_storage (fire b t)"
  unfolding fire_def without_storage_fields(3) [OF assms]
  by (rule run_callback_cong) (rule without_storage_set_cong(3) [OF assms])

lemma foldl_fire_cong:
  assumes "without_storage a = without_storage b"
  shows "without_storage (foldl fire a ts) = without_storage (foldl fire b ts)"
  using assms
proof (induction ts arbitrary: a b)
  case Nil
  then show ?case by simp
next
  case (Cons t ts)
  from Cons.IH [OF fire_cong [OF Cons.prems]] show ?case by simp
qed

lemma elapse_cong:
  assumes "without_storage a = without_storage b"
  shows "without_storage (elapse d a) = without_storage (elapse d b)"
proof -
  let ?keep = "filter (\<lambda>tm. \<not> due tm \<le> clock b + d) (timers b)"
  let ?ready = "filter (\<lambda>tm. due tm \<le> clock b + d) (timers b)"
  have "without_storage (foldl fire (a\<lparr>timers := ?keep\<rparr>) ?ready) =
        without_storage (foldl fire (b\<lparr>timers := ?keep\<rparr>) ?ready)"
    by (rule foldl_fire_cong) (rule without_storage_set_cong(2) [OF assms])
  from without_storage_set_cong(3) [OF this] show ?thesis
    by (simp add: elapse_def Let_def without_storage_fields(2,3) [OF assms])
qed

lemma goToSlide_storage:
  "without_storage (goToSlide index (s\<lparr>localStorage := st\<rparr>)) = without_storage (goToSlide index s)"
  by (simp add: goToSlide_def updateButtonStates_nf requestAnimationFrame_def without_storage_def
        Let_def split: option.splits)

lemma run_callback_uncaught: "uncaught (run_callback cb s) = uncaught s"
  by (cases cb) (simp_all add: requestAnimationFrame_def commitSlide_nf settle_nf resizeFire_nf)

lemma foldl_callback_uncaught: "uncaught (foldl (\<lambda>s cb. run_callback cb s) s cbs) = uncaught s"
  by (induction cbs arbitrary: s) (simp_all add: run_callback_uncaught)

lemma foldl_fire_uncaught: "uncaught (foldl fire s ts) = uncaught s"
  by (induction ts arbitrary: s) (simp_all add: fire_def run_callback_uncaught)

lemma full_transition_uncaught: "uncaught (full_transition target d s) = uncaught s"
proof -
  have g: "uncaught (goToSlide target s) = uncaught s"
    by (simp add: goToSlide_def updateButtonStates_nf requestAnimationFrame_def Let_def
          split: option.splits)
  have a: "uncaught (animation_frame s') = uncaught s'" for s'
    by (simp add: animation_frame_def foldl_callback_uncaught)
  have e: "uncaught (elapse d s') = uncaught s'" for s'
    by (simp add: elapse_def Let_def foldl_fire_uncaught)
  show ?thesis by (simp add: full_transition_def g a e)
qed

text \<open>
  C8. \<^verbatim>\<open>saveProgress\<close> never lets an exception out: when the write succeeds the stored value
  is the decimal current index, and when it throws the state is unchanged but for a
  console warning. A navigation transition started with any storage, failing or not,
  ends in the same state as with any other, storage content and console apart, and
  leaves no uncaught exception behind.
\<close>

theorem persistence_failures_swallowed:
  "(setItem_throws (localStorage s) = None \<longrightarrow>
      saveProgress s =
        Inr (s\<lparr>localStorage := (localStorage s)\<lparr>items := (items (localStorage s))
               (''presentationProgress'' \<mapsto> toString (currentSlide s))\<rparr>\<rparr>)) \<and>
   (setItem_throws (localStorage s) \<noteq> None \<longrightarrow>
      saveProgress s = Inr (s\<lparr>console := console s @ [''Could not save progress:'']\<rparr>)) \<and>
   without_storage (full_transition target d (s\<lparr>localStorage := st\<rparr>)) =
     without_storage (full_transition target d s) \<and>
   uncaught (full_transition target d (s\<lparr>localStorage := st\<rparr>)) = uncaught s"
proof -
  have "without_storage (full_transition target d (s\<lparr>localStorage := st\<rparr>)) =
        without_storage (full_transition target d s)"
    unfolding full_transition_def
    by (intro elapse_cong animation_frame_cong goToSlide_storage)
  then show ?thesis
    by (auto simp add: saveProgress_nf full_transition_uncaught)
qed

theorem persistence_failures_swallowed_witness:
  "setItem_throws (localStorage demo_deck) = None \<and>
   saveProgress demo_deck =
     Inr (demo_deck\<lparr>localStorage := (localStorage demo_deck)\<lparr>items := (items (localStorage demo_deck))
            (''presentationProgress'' \<mapsto> toString (currentSlide demo_deck))\<rparr>\<rparr>) \<and>
   setItem_throws (localStorage (demo_deck\<lparr>localStorage := demo_full_storage\<rparr>)) \<noteq> None \<and>
   saveProgress (demo_deck\<lparr>localStorage := demo_full_storage\<rparr>) =
     Inr (demo_deck\<lparr>localStorage := demo_full_storage,
            console := console demo_deck @ [''Could not save progress:'']\<rparr>) \<and>
   without_storage (full_transition 2 600 (demo_deck\<lparr>localStorage := demo_full_storage\<rparr>)) =
     without_storage demo_mid \<and>
   currentSlide (full_transition 2 600 (demo_deck\<lparr>localStorage := demo_full_storage\<rparr>)) = 2 \<and>
   isAnimating (full_transition 2 600 (demo_deck\<lparr>localStorage := demo_full_storage\<rparr>)) = False \<and>
   uncaught (full_transition 2 600 (demo_deck\<lparr>localStorage := demo_full_storage\<rparr>)) =
     uncaught demo_deck"
proof -
  let ?f = "demo_deck\<lparr>localStorage := demo_full_storage\<rparr>"
  have a: "setItem_throws (localStorage demo_deck) = None"
    by (simp add: demo_deck_fields demo_storage_def)
  have b: "setItem_throws (localStorage ?f) \<noteq> None"
    by (simp add: demo_full_storage_def)
  note t = persistence_failures_swallowed [of demo_deck 2 600 demo_full_storage]
  note u = persistence_failures_swallowed [of ?f 2 600 demo_full_storage]
  from t have w: "without_storage (full_transition 2 600 ?f) = without_storage demo_mid"
    by (simp add: demo_mid_def)
  have c: "currentSlide x = currentSlide (without_storage x)"
    "isAnimating x = isAnimating (without_storage x)" for x
    by (simp_all add: without_storage_def)
  have "currentSlide (full_transition 2 600 ?f) = 2"
    "isAnimating (full_transition 2 600 ?f) = False"
    using c [of "full_transition 2 600 ?f"] c [of demo_mid]
    by (simp_all only: w demo_mid_facts)
  then show ?thesis
    using a b t u w by simp
qed

section \<open>The debounced resize\<close>

lemma filter_insert_timer_other:
  "\<not> P t \<Longrightarrow> filter P (insert_timer t ts) = filter P ts"
  by (induction ts) simp_all

lemma filter_insert_timer_only:
  "P t \<Longrightarrow> filter P ts = [] \<Longrightarrow> filter P (insert_timer t ts) = [t]"
  by (induction ts) (auto split: if_splits)

lemma fire_resize:
  shows "charts (fire s t) = (if action t = ResizeFire then resize_charts (charts s) else charts s)"
    and "resizeTimeout (fire s t) = resizeTimeout s"
    and "resize_pending (fire s t) = resize_pending s"
  by (cases "action t";
      simp add: fire_def resize_pending_def requestAnimationFrame_def commitSlide_nf settle_nf
        resizeFire_nf filter_insert_timer_other)+

lemma foldl_fire_resize:
  shows "charts (foldl fire s ts) =
           (resize_charts ^^ length (filter (\<lambda>t. action t = ResizeFire) ts)) (charts s)"
    and "resizeTimeout (foldl fire s ts) = resizeTimeout s"
    and "resize_pending (foldl fire s ts) = resize_pending s"
proof (induction ts arbitrary: s)
  case Nil
  {
    case 1 show ?case by simp
  next
    case 2 show ?case by simp
  next
    case 3 show ?case by simp
  }
next
  case (Cons t ts)
  {
    case 1 show ?case by (simp add: Cons.IH(1) fire_resize funpow_swap1)
  next
    case 2 show ?case by (simp add: Cons.IH(2) fire_resize)
  next
    case 3 show ?case by (simp add: Cons.IH(3) fire_resize)
  }
qed

lemma elapse_resize:
  shows "charts (elapse d s) =
           (resize_charts ^^ length (filter (\<lambda>t. due t \<le> clock s + d) (resize_pending s)))
             (charts s)"
    and "resizeTimeout (elapse d s) = resizeTimeout s"
    and "resize_pending (elapse d s) = filter (\<lambda>t. \<not> due t \<le> clock s + d) (resize_pending s)"
proof -
  let ?s1 = "s\<lparr>timers := filter (\<lambda>tm. \<not> due tm \<le> clock s + d) (timers s)\<rparr>"
  let ?ready = "filter (\<lambda>tm. due tm \<le> clock s + d) (timers s)"
  have e: "elapse d s = (foldl fire ?s1 ?ready)\<lparr>clock := clock s + d\<rparr>"
    by (simp add: elapse_def Let_def)
  have c: "filter (\<lambda>t. action t = ResizeFire) ?ready =
           filter (\<lambda>t. due t \<le> clock s + d) (resize_pending s)"
    by (simp add: resize_pending_def conj_commute)
  have "charts (elapse d s) = charts (foldl fire ?s1 ?ready)"
    by (simp add: e)
  also have "\<dots> =
      (resize_charts ^^ length (filter (\<lambda>t. action t = ResizeFire) ?ready)) (charts ?s1)"
    by (rule foldl_fire_resize(1))
  also have "\<dots> =
      (resize_charts ^^ length (filter (\<lambda>t. due t \<le> clock s + d) (resize_pending s)))
        (charts s)"
    unfolding c by simp
  finally show "charts (elapse d s) =
           (resize_charts ^^ length (filter (\<lambda>t. due t \<le> clock s + d) (resize_pending s)))
             (charts s)" .
  show "resizeTimeout (elapse d s) = resizeTimeout s"
    by (simp add: e foldl_fire_resize(2))
  have "resize_pending (elapse d s) = resize_pending (foldl fire ?s1 ?ready)"
    by (simp add: e resize_pending_def)
  also have "\<dots> = resize_pending ?s1" by (rule foldl_fire_resize(3))
  also have "\<dots> = filter (\<lambda>t. \<not> due t \<le> clock s + d) (resize_pending s)"
    by (simp add: resize_pending_def conj_commute)
  finally show "resize_pending (elapse d s) =
      filter (\<lambda>t. \<not> due t \<le> clock s + d) (resize_pending s)" .
qed

lemma handleResize_rearms:
  assumes "resize_tracked s"
  shows "resize_pending (handleResize s) =
           [\<lparr>timer_id = Suc (timer_seq s), due = clock s + 250, action = ResizeFire\<rparr>]"
    and "resizeTimeout (handleResize s) = Some (Suc (timer_seq s))"
    and "charts (handleResize s) = charts s"
    and "clock (handleResize s) = clock s"
proof -
  define s1 where "s1 = (case resizeTimeout s of
                  None \<Rightarrow> s
                | Some i \<Rightarrow> if i = 0 then s else clearTimeout i s)"
  have hr: "handleResize s =
      s1\<lparr>timer_seq := Suc (timer_seq s1),
         timers := insert_timer \<lparr>timer_id = Suc (timer_seq s1), due = clock s1 + 250,
                     action = ResizeFire\<rparr> (timers s1),
         resizeTimeout := Some (Suc (timer_seq s1))\<rparr>"
    by (simp add: handleResize_def setTimeout_def Let_def s1_def [symmetric])
  have f: "timer_seq s1 = timer_seq s" "clock s1 = clock s" "charts s1 = charts s"
    by (simp_all add: s1_def clearTimeout_def split: option.splits)
  from assms have tr: "\<forall>t \<in> set (timers s). action t = ResizeFire \<longrightarrow>
      resizeTimeout s = Some (timer_id t) \<and> timer_id t \<noteq> 0"
    by (simp add: resize_tracked_def resize_pending_def list_all_iff)
  have none: "filter (\<lambda>t. action t = ResizeFire) (timers s1) = []"
  proof (cases "resizeTimeout s")
    case None
    with tr show ?thesis by (auto simp add: s1_def filter_empty_conv)
  next
    case (Some i)
    with tr show ?thesis
      by (auto simp add: s1_def clearTimeout_def filter_empty_conv)
  qed
  show "resize_pending (handleResize s) =
           [\<lparr>timer_id = Suc (timer_seq s), due = clock s + 250, action = ResizeFire\<rparr>]"
    by (simp add: hr resize_pending_def f filter_insert_timer_only none)
  show "resizeTimeout (handleResize s) = Some (Suc (timer_seq s))" by (simp add: hr f)
  show "charts (handleResize s) = charts s" by (simp add: hr f)
  show "clock (handleResize s) = clock s" by (simp add: hr f)
qed

lemma armed_tracked:
  assumes "resize_pending s = [\<lparr>timer_id = Suc n, due = t, action = ResizeFire\<rparr>]"
    and "resizeTimeout s = Some (Suc n)"
  shows "resize_tracked s"
  using assms by (simp add: resize_tracked_def)

lemma elapse_within_window:
  assumes "resize_tracked s" and "g < 250"
  shows "resize_tracked (elapse g (handleResize s))"
    and "charts (elapse g (handleResize s)) = charts s"
proof -
  note h = handleResize_rearms [OF assms(1)]
  have p: "resize_pending (elapse g (handleResize s)) =
             [\<lparr>timer_id = Suc (timer_seq s), due = clock s + 250, action = ResizeFire\<rparr>]"
    using assms(2) by (simp add: elapse_resize(3) h)
  show "resize_tracked (elapse g (handleResize s))"
    by (rule armed_tracked [OF p]) (simp add: elapse_resize(2) h)
  show "charts (elapse g (handleResize s)) = charts s"
    using assms(2) by (simp add: elapse_resize(1) h)
qed

lemma resize_burst_armed:
  assumes "resize_tracked s" and "\<forall>g \<in> set gaps. g < 250"
  shows "charts (resize_burst gaps s) = charts s \<and>
         map due (resize_pending (resize_burst gaps s)) = [clock (resize_burst gaps s) + 250]"
  using assms
proof (induction gaps arbitrary: s)
  case Nil
  then show ?case by (simp add: handleResize_rearms)
next
  case (Cons g gaps)
  then have g: "g < 250" and gs: "\<forall>g \<in> set gaps. g < 250" by simp_all
  note w = elapse_within_window [OF Cons.prems(1) g]
  from Cons.IH [OF w(1) gs] w(2) show ?case by simp
qed

text \<open>
  C7. \<^verbatim>\<open>handleResize\<close> cancels the pending resize timer and arms a new one 250ms ahead.
  For any burst of resize events whose gaps are each below 250ms, no chart is resized
  during the burst, and once 250ms or more have passed after the last event the
  registry has gone through exactly one relayout pass (one \<^verbatim>\<open>resize()\<close> per chart) and no
  resize timer is pending.
\<close>

theorem resize_debounced:
  assumes "resize_tracked s" and "\<forall>g \<in> set gaps. g < 250" and "250 \<le> q"
  shows "map due (resize_pending (handleResize s)) = [clock s + 250] \<and>
         charts (resize_burst gaps s) = charts s \<and>
         charts (elapse q (resize_burst gaps s)) = resize_charts (charts s) \<and>
         resize_pending (elapse q (resize_burst gaps s)) = []"
proof -
  note a = resize_burst_armed [OF assms(1,2)]
  from a obtain t where t: "resize_pending (resize_burst gaps s) = [t]"
    and d: "due t = clock (resize_burst gaps s) + 250"
    by (cases "resize_pending (resize_burst gaps s)") auto
  show ?thesis
    using assms(3) a d
    by (simp add: elapse_resize t handleResize_rearms [OF assms(1)])
qed

lemma createCharts_env:
  assumes "canvases a = canvases b" and "chart_library a = chart_library b"
    and "chart_throws a = chart_throws b"
  shows "createCharts a ks reg = createCharts b ks reg"
  using assms by (induction ks arbitrary: reg) simp_all

lemma init_charts:
  assumes "init s = Inr s'"
  shows "charts s' = snd (createCharts s chart_ids (charts s))"
proof -
  let ?s1 = "updateButtonStates False (updateProgress (updateSlideCounter s))"
  have c: "createCharts ?s1 chart_ids (charts s) = createCharts s chart_ids (charts s)"
    by (rule createCharts_env)
       (simp_all add: updateProgress_nf updateSlideCounter_nf updateButtonStates_nf)
  have "charts ?s1 = charts s"
    by (simp add: updateProgress_nf updateSlideCounter_nf updateButtonStates_nf)
  with assms c show ?thesis
    by (auto simp add: init_def initCharts_nf loadProgress_nf showSlide_nf Let_def)
qed

lemma demo_deck_charts:
  "charts demo_deck = [(''skillsChart'', \<lparr>resize_calls = 0\<rparr>), (''techRadarChart'', \<lparr>resize_calls = 0\<rparr>)]"
proof -
  have "init (demo_page 5 (demo_storage None)\<lparr>totalSlides := 5\<rparr>) = Inr demo_deck"
    using construct_eq [of "demo_page 5 (demo_storage None)"]
    by (simp add: PresentationController_def demo_deck_def demo_page_def)
  from init_charts [OF this] show ?thesis
    by (simp add: demo_page_def chart_ids_def)
qed

theorem resize_debounced_witness:
  "resize_tracked demo_deck \<and> list_all (\<lambda>g. g < 250) [25, 25, 25, 25 :: nat] \<and>
   (250::nat) \<le> 250 \<and>
   charts (resize_burst [25, 25, 25, 25] demo_deck) = charts demo_deck \<and>
   charts (elapse 250 (resize_burst [25, 25, 25, 25] demo_deck)) =
     [(''skillsChart'', \<lparr>resize_calls = 1\<rparr>), (''techRadarChart'', \<lparr>resize_calls = 1\<rparr>)] \<and>
   resize_pending (elapse 250 (resize_burst [25, 25, 25, 25] demo_deck)) = []"
proof -
  have a: "resize_tracked demo_deck"
    by (simp add: resize_tracked_def resize_pending_def demo_deck_fields)
  have b: "\<forall>g \<in> set [25, 25, 25, 25 :: nat]. g < 250" by simp
  have c: "(250::nat) \<le> 250" by simp
  have r: "resize_charts (charts demo_deck) =
      [(''skillsChart'', \<lparr>resize_calls = 1\<rparr>), (''techRadarChart'', \<lparr>resize_calls = 1\<rparr>)]"
    by (simp add: demo_deck_charts resize_charts_def)
  show ?thesis
    using a resize_debounced [OF a b c] by (simp add: r)
qed

section \<open>The progress percentage\<close>

lemma bit_length_numeral [simp]:
  "bit_length 0 = 0"
  "bit_length (numeral n) = Suc (bit_length (numeral n div 2))"
  by (simp_all add: bit_length.simps)

lemma percentage_2_5: "percentage 2 5 = Finite 8444249301319680 (- 47)"
proof -
  have "js_divide 3 5 = Finite 5404319552844595 (- 53)"
    by (simp add: js_divide_def round_ratio_def binade_def round_half_even_def Let_def)
  then show ?thesis
    by (simp add: percentage_def round_ratio_def binade_def round_half_even_def Let_def)
qed

lemma percentage_6_100: "percentage 6 100 = Finite 7881299347898369 (- 50)"
proof -
  have "js_divide 7 100 = Finite 5044031582654956 (- 56)"
    by (simp add: js_divide_def round_ratio_def binade_def round_half_even_def Let_def)
  then show ?thesis
    by (simp add: percentage_def round_ratio_def binade_def round_half_even_def Let_def)
qed

lemma value_2_5: "number_value (percentage 2 5) = Some 60"
  by (simp add: percentage_2_5 pow2_def)

lemma value_6_100: "number_value (percentage 6 100) = Some (7 + 1 / 2 ^ 50)"
  by (simp add: percentage_6_100 pow2_def)



lemma pow2_powi: "pow2 e = 2 powi e"
  by (simp add: pow2_def power_int_def power_one_over)

lemma pow2_pos [simp]: "0 < pow2 e"
  by (simp add: pow2_powi)

lemma pow2_nonneg [simp]: "0 \<le> pow2 e"
  using pow2_pos [of e] by (rule less_imp_le)

lemma pow2_nonzero [simp]: "pow2 e \<noteq> 0"
  by (simp add: pow2_powi)

lemma pow2_add: "pow2 (x + y) = pow2 x * pow2 y"
  by (simp add: pow2_powi power_int_add)

lemma pow2_nat: "pow2 (int n) = 2 ^ n"
  by (simp add: pow2_def)

lemma bit_length_bounds:
  "0 < n \<Longrightarrow> 2 ^ (bit_length n - 1) \<le> n \<and> n < 2 ^ bit_length n"
proof (induction n rule: bit_length.induct)
  case (1 n)
  show ?case
  proof (cases "n div 2 = 0")
    case True
    with "1.prems" have "n = 1" by (simp add: div_eq_0_iff) 
    then show ?thesis by (simp add: bit_length.simps)
  next
    case False
    then have pos: "0 < n div 2" by simp
    from "1.prems" have n0: "n \<noteq> 0" by simp
    from "1.IH" [OF n0 pos] have lo: "2 ^ (bit_length (n div 2) - 1) \<le> n div 2"
      and hi: "n div 2 < 2 ^ bit_length (n div 2)" by simp_all
    have bl: "bit_length n = Suc (bit_length (n div 2))"
      using n0 by (simp add: bit_length.simps)
    have l1: "0 < bit_length (n div 2)"
      using pos by (simp add: bit_length.simps)
    then have "2 ^ bit_length (n div 2) = (2::nat) * 2 ^ (bit_length (n div 2) - 1)"
      by (cases "bit_length (n div 2)") simp_all
    with lo have "2 ^ bit_length (n div 2) \<le> 2 * (n div 2)" by simp
    also have "\<dots> \<le> n" by simp
    finally have a: "2 ^ (bit_length n - 1) \<le> n" by (simp add: bl)
    from hi have "n div 2 + 1 \<le> 2 ^ bit_length (n div 2)" by simp
    then have "2 * (n div 2) + 2 \<le> 2 * 2 ^ bit_length (n div 2)" by simp
    moreover have "n < 2 * (n div 2) + 2" by presburger
    ultimately have b: "n < 2 ^ bit_length n" by (simp add: bl)
    from a b show ?thesis by simp
  qed
qed


lemma round_half_even_err:
  assumes "0 < den"
  shows "\<bar>(of_nat (round_half_even num den) :: rat) - of_nat num / of_nat den\<bar> \<le> 1 / 2"
proof -
  define qu where "qu = num div den"
  define r where "r = num mod den"
  have n: "num = qu * den + r" by (simp add: qu_def r_def)
  have rl: "r < den" using assms by (simp add: r_def)
  have d: "(0::rat) < of_nat den" using assms by simp
  have q: "(of_nat num :: rat) / of_nat den = of_nat qu + of_nat r / of_nat den"
    using d by (simp add: n field_simps)
  have r1: "(of_nat r :: rat) / of_nat den < 1" using rl d by simp
  have r0: "(0::rat) \<le> of_nat r / of_nat den" by simp
  consider (lo) "2 * r < den" | (hi) "den < 2 * r" | (tie) "2 * r = den" by linarith
  then show ?thesis
  proof cases
    case lo
    then have "(of_nat (2 * r) :: rat) < of_nat den" by (simp only: of_nat_less_iff)
    then have "(of_nat r :: rat) / of_nat den < 1 / 2" using d by (simp add: field_simps)
    moreover have "round_half_even num den = qu"
      using lo by (simp add: round_half_even_def qu_def r_def Let_def)
    ultimately show ?thesis using r0 by (simp add: q)
  next
    case hi
    then have "(of_nat den :: rat) < of_nat (2 * r)" by (simp only: of_nat_less_iff)
    then have "1 / 2 < (of_nat r :: rat) / of_nat den" using d by (simp add: field_simps)
    moreover have "round_half_even num den = qu + 1"
      using hi by (simp add: round_half_even_def qu_def r_def Let_def)
    ultimately show ?thesis using r1 by (simp add: q)
  next
    case tie
    then have "(of_nat den :: rat) = of_nat (2 * r)" by (simp only:)
    then have h: "(of_nat r :: rat) / of_nat den = 1 / 2" using d by (simp add: field_simps)
    have "round_half_even num den = qu \<or> round_half_even num den = qu + 1"
      using tie by (simp add: round_half_even_def qu_def r_def Let_def)
    then show ?thesis by (auto simp add: q h)
  qed
qed


lemma pow2_succ: "pow2 (e + 1) = 2 * pow2 e"
  by (simp add: pow2_add) (simp add: pow2_def)

lemma pow2_pred: "pow2 (e - 1) = pow2 e / 2"
  using pow2_succ [of "e - 1"] by simp

lemma bit_length_rat:
  assumes "0 < n"
  shows "pow2 (int (bit_length n)) / 2 \<le> of_nat n" and "(of_nat n :: rat) < pow2 (int (bit_length n))"
proof -
  from bit_length_bounds [OF assms] have lo: "2 ^ (bit_length n - 1) \<le> n"
    and hi: "n < 2 ^ bit_length n" by simp_all
  have "0 < bit_length n" using assms by (simp add: bit_length.simps)
  then have "(2::rat) ^ bit_length n = 2 * 2 ^ (bit_length n - 1)"
    by (cases "bit_length n") simp_all
  moreover from lo have "(of_nat (2 ^ (bit_length n - 1)) :: rat) \<le> of_nat n"
    by (simp only: of_nat_le_iff)
  ultimately show "pow2 (int (bit_length n)) / 2 \<le> of_nat n"
    by (simp add: pow2_nat)
  from hi have "(of_nat n :: rat) < of_nat (2 ^ bit_length n)"
    by (simp only: of_nat_less_iff)
  then show "(of_nat n :: rat) < pow2 (int (bit_length n))"
    by (simp add: pow2_nat)
qed

lemma binade_test:
  assumes "0 < b"
  shows "(if 0 \<le> e then b * 2 ^ nat e \<le> a else b \<le> a * 2 ^ nat (- e)) \<longleftrightarrow>
         pow2 e \<le> (of_nat a :: rat) / of_nat b"
proof (cases "0 \<le> e")
  case True
  have "b * 2 ^ nat e \<le> a \<longleftrightarrow> (of_nat (b * 2 ^ nat e) :: rat) \<le> of_nat a"
    by (simp only: of_nat_le_iff)
  also have "\<dots> \<longleftrightarrow> pow2 e \<le> (of_nat a :: rat) / of_nat b"
    using assms True by (simp add: pow2_def field_simps)
  finally show ?thesis using True by simp
next
  case False
  have "b \<le> a * 2 ^ nat (- e) \<longleftrightarrow> (of_nat b :: rat) \<le> of_nat (a * 2 ^ nat (- e))"
    by (simp only: of_nat_le_iff)
  also have "\<dots> \<longleftrightarrow> pow2 e \<le> (of_nat a :: rat) / of_nat b"
    using assms False by (simp add: pow2_def field_simps)
  finally show ?thesis using False by simp
qed

lemma binade_bounds:
  assumes "0 < a" and "0 < b"
  shows "pow2 (binade a b) \<le> (of_nat a :: rat) / of_nat b"
    and "(of_nat a :: rat) / of_nat b < pow2 (binade a b + 1)"
proof -
  define e0 where "e0 = int (bit_length a) - int (bit_length b)"
  define q where "q = (of_nat a :: rat) / of_nat b"
  note A = bit_length_rat [OF assms(1)]
  note B = bit_length_rat [OF assms(2)]
  have bpos: "(0::rat) < of_nat b" using assms(2) by simp
  have e: "pow2 (int (bit_length a)) = pow2 e0 * pow2 (int (bit_length b))"
    unfolding e0_def pow2_add [symmetric] by simp
  have "q * of_nat b = of_nat a" using bpos by (simp add: q_def)
  have up: "q < pow2 (e0 + 1)"
  proof -
    have "of_nat a < pow2 e0 * pow2 (int (bit_length b))" using A(2) e by simp
    also have "\<dots> \<le> pow2 e0 * (2 * of_nat b)"
      using B(1) by (intro mult_left_mono) simp_all
    finally have "of_nat a < (2 * pow2 e0) * of_nat b" by (simp add: mult_ac)
    then have "q < 2 * pow2 e0" using bpos by (simp add: q_def field_simps)
    then show ?thesis by (simp only: pow2_succ)
  qed
  have lo: "pow2 (e0 - 1) < q"
  proof -
    have "pow2 e0 / 2 * of_nat b < pow2 e0 / 2 * pow2 (int (bit_length b))"
      using B(2) by (intro mult_strict_left_mono) simp_all
    also have "\<dots> \<le> of_nat a" using A(1) e by simp
    finally have "pow2 e0 / 2 < q" using bpos by (simp add: q_def field_simps)
    then show ?thesis by (simp only: pow2_pred)
  qed
  have bd: "binade a b = (if pow2 e0 \<le> q then e0 else e0 - 1)"
    unfolding binade_def Let_def e0_def [symmetric] binade_test [OF assms(2)] q_def ..
  show "pow2 (binade a b) \<le> (of_nat a :: rat) / of_nat b"
    using lo by (simp add: bd q_def [symmetric])
  show "(of_nat a :: rat) / of_nat b < pow2 (binade a b + 1)"
    using up by (simp add: bd q_def [symmetric])
qed


lemma round_ratio_err:
  assumes "0 < a" and "0 < b"
  shows "\<bar>of_nat (fst (round_ratio a b)) * pow2 (snd (round_ratio a b)) - of_nat a / of_nat b\<bar>
           \<le> (of_nat a / of_nat b) / 2 ^ 53"
proof -
  define k where "k = binade a b - 52"
  define q where "q = (of_nat a :: rat) / of_nat b"
  define num where "num = (if k < 0 then a * 2 ^ nat (- k) else a)"
  define den where "den = (if k < 0 then b else b * 2 ^ nat k)"
  define m where "m = round_half_even num den"
  have rr: "round_ratio a b = (m, k)"
    by (simp add: round_ratio_def Let_def k_def [symmetric] num_def den_def m_def)
  have dpos: "0 < den" using assms(2) by (simp add: den_def)
  have bpos: "(0::rat) < of_nat b" using assms(2) by simp
  have sc: "(of_nat num :: rat) / of_nat den = q / pow2 k"
    by (cases "k < 0") (simp_all add: num_def den_def q_def pow2_def)
  from round_half_even_err [OF dpos, of num]
  have "\<bar>(of_nat m :: rat) - q / pow2 k\<bar> \<le> 1 / 2" by (simp add: m_def sc)
  then have "\<bar>(of_nat m :: rat) - q / pow2 k\<bar> * pow2 k \<le> 1 / 2 * pow2 k"
    by (intro mult_right_mono) simp_all
  moreover have "\<bar>(of_nat m :: rat) - q / pow2 k\<bar> * pow2 k = \<bar>of_nat m * pow2 k - q\<bar>"
  proof -
    have "\<bar>(of_nat m :: rat) - q / pow2 k\<bar> * pow2 k = \<bar>(of_nat m - q / pow2 k) * pow2 k\<bar>"
      by (simp add: abs_mult)
    also have "(of_nat m - q / pow2 k) * pow2 k = of_nat m * pow2 k - q"
    proof -
      show ?thesis by (simp add: left_diff_distrib)
    qed
    finally show ?thesis .
  qed
  ultimately have e1: "\<bar>of_nat m * pow2 k - q\<bar> \<le> pow2 k / 2" by simp
  have "pow2 (k + 52) \<le> q"
    using binade_bounds(1) [OF assms] by (simp add: k_def q_def)
  moreover have "pow2 52 = 2 ^ 52" by (simp add: pow2_def)
  then have "pow2 (k + 52) = pow2 k * 2 ^ 52" by (simp only: pow2_add)
  ultimately have "pow2 k * 2 ^ 52 \<le> q" by (simp only:)
  then have "pow2 k / 2 \<le> q / 2 ^ 53" by simp
  with e1 have "\<bar>of_nat m * pow2 k - q\<bar> \<le> q / 2 ^ 53" by linarith
  then show ?thesis by (simp add: rr q_def)
qed


lemma percentage_error:
  assumes "0 \<le> i" and "0 < n"
  shows "\<exists>v. number_value (percentage i n) = Some v \<and>
             \<bar>v - of_int (i + 1) / of_int n * 100\<bar> \<le> (of_int (i + 1) / of_int n * 100) / 2 ^ 51"
proof -
  define a where "a = nat (i + 1)"
  define b where "b = nat n"
  define q where "q = (of_nat a :: rat) / of_nat b"
  define m1 where "m1 = fst (round_ratio a b)"
  define k1 where "k1 = snd (round_ratio a b)"
  define v1 where "v1 = (of_nat m1 :: rat) * pow2 k1"
  have apos: "0 < a" and bpos: "0 < b" using assms by (simp_all add: a_def b_def)
  have qe: "q = of_int (i + 1) / of_int n"
    using assms by (simp add: q_def a_def b_def)
  have qpos: "0 < q" using apos bpos by (simp add: q_def)
  have e1: "\<bar>v1 - q\<bar> \<le> q / 2 ^ 53"
    using round_ratio_err [OF apos bpos] by (simp add: v1_def m1_def k1_def q_def)
  have u: "(2::rat) ^ 53 = 9007199254740992" "(2::rat) ^ 51 = 2251799813685248" by simp_all
  have v1pos: "0 < v1" using e1 qpos unfolding u by linarith
  then have m1pos: "0 < m1" by (cases "m1 = 0") (simp_all add: v1_def)
  have d: "js_divide (i + 1) n = Finite (int m1) k1"
    using assms
    by (simp add: js_divide_def a_def [symmetric] b_def [symmetric] m1_def k1_def
          split: prod.splits)
  define a2 where "a2 = (if 0 \<le> k1 then m1 * 100 * 2 ^ nat k1 else m1 * 100)"
  define b2 where "b2 = (if 0 \<le> k1 then 1 else (2::nat) ^ nat (- k1))"
  define m2 where "m2 = fst (round_ratio a2 b2)"
  define k2 where "k2 = snd (round_ratio a2 b2)"
  define v2 where "v2 = (of_nat m2 :: rat) * pow2 k2"
  have a2pos: "0 < a2" and b2pos: "0 < b2" using m1pos by (simp_all add: a2_def b2_def)
  have r2: "(of_nat a2 :: rat) / of_nat b2 = v1 * 100"
    by (cases "0 \<le> k1") (simp_all add: a2_def b2_def v1_def pow2_def)
  have e2: "\<bar>v2 - v1 * 100\<bar> \<le> (v1 * 100) / 2 ^ 53"
    using round_ratio_err [OF a2pos b2pos] by (simp add: v2_def m2_def k2_def r2)
  have p: "percentage i n = Finite (int m2) k2"
    using m1pos
    by (cases "0 \<le> k1")
       (simp_all add: percentage_def d a2_def b2_def m2_def k2_def split: prod.splits)
  have "\<bar>v2 - q * 100\<bar> \<le> (q * 100) / 2 ^ 51"
    using e1 e2 qpos unfolding u by linarith
  then show ?thesis
    by (simp add: p v2_def qe)
qed


text \<open>
  C9, as stated: the fill after settling on slide \<open>i\<close> of \<open>n\<close> equals \<open>(i+1)/n * 100\<close> exactly.
  On a deck of 100 slides, at the seventh, the exact value is 7 and the computed double
  is \<open>7 + 2^-50\<close>.
\<close>

theorem progress_fill_inexact:
  "number_value (percentage 6 100) \<noteq> Some ((6 + 1) / 100 * 100)"
  by (simp add: value_6_100)

text \<open>
  C9, amended. After a completed transition to slide \<open>i\<close> the progress bar, if the page has
  one, holds the double-precision value of \<^verbatim>\<open>((i + 1) / totalSlides) * 100\<close>: a finite
  number within a relative \<open>2^-51\<close> of the exact \<open>(i+1)/n * 100\<close>, and exactly 60 for
  \<open>n = 5\<close>, \<open>i = 2\<close>.
\<close>

theorem progress_fill_after_settling:
  assumes "steady s" and "0 \<le> i" and "i < totalSlides s" and "600 \<le> d"
  shows "progressFill (full_transition i d s) =
           map_option (\<lambda>_. percentage i (totalSlides s)) (progressFill s) \<and>
         (\<exists>v. number_value (percentage i (totalSlides s)) = Some v \<and>
              \<bar>v - of_int (i + 1) / of_int (totalSlides s) * 100\<bar>
                \<le> (of_int (i + 1) / of_int (totalSlides s) * 100) / 2 ^ 51) \<and>
         number_value (percentage 2 5) = Some 60"
proof -
  from assms(2,3) have n: "0 < totalSlides s" by simp
  show ?thesis
    using transition_result(11) [OF assms] percentage_error [OF assms(2) n] value_2_5
    by simp
qed

theorem progress_fill_after_settling_witness:
  "steady demo_deck \<and> (0::int) \<le> 2 \<and> 2 < totalSlides demo_deck \<and> (600::nat) \<le> 600 \<and>
   progressFill (full_transition 2 600 demo_deck) = Some (Finite 8444249301319680 (- 47)) \<and>
   number_value (Finite 8444249301319680 (- 47)) = Some 60"
proof -
  have h: "steady demo_deck" "(0::int) \<le> 2" "2 < totalSlides demo_deck" "(600::nat) \<le> 600"
    by (simp_all add: demo_deck_steady)
  have p: "progressFill demo_deck \<noteq> None"
    using demo_deck_fields(9) by auto
  show ?thesis
    using h p progress_fill_after_settling [OF h]
    by (auto simp add: demo_deck_steady percentage_2_5)
qed

section \<open>The idle states that events can reach\<close>

lemma coherent_idle_steady:
  assumes "coherent s" and "\<not> isAnimating s"
  shows "steady s"
proof -
  from assms have p: "frame_requests s = []" "settles s = []" "shown_current s" "controls_ok s"
    by (auto simp add: coherent_def phase_ok_def)
  from assms(1) have "\<forall>t \<in> set (timers s). action t = ResizeFire \<or> action t \<noteq> ResizeFire"
    by simp
  from p(2) have "\<forall>t \<in> set (timers s). action t = ResizeFire"
    by (auto simp add: settles_def filter_empty_conv)
  with assms p show ?thesis
    by (simp add: steady_def coherent_def shown_current_def)
qed

lemma steady_coherent:
  assumes "steady s" and "ids_ok s"
  shows "coherent s"
proof -
  from assms(1) have "settles s = []"
    by (auto simp add: steady_def settles_def filter_empty_conv)
  with assms show ?thesis
    by (simp add: coherent_def steady_def phase_ok_def shown_current_def)
qed


lemma coherent_cong:
  assumes "slides a = slides b" "currentSlide a = currentSlide b" "totalSlides a = totalSlides b"
    "isAnimating a = isAnimating b" "frame_requests a = frame_requests b" "timers a = timers b"
    "timer_seq a = timer_seq b" "resizeTimeout a = resizeTimeout b"
    "prevButton a = prevButton b" "nextButton a = nextButton b"
  shows "coherent a \<longleftrightarrow> coherent b"
  using assms
  by (simp add: coherent_def ids_ok_def phase_ok_def shown_current_def controls_ok_def
        settles_def active_slides_def)

lemma phase_ok_cong:
  assumes "slides a = slides b" "currentSlide a = currentSlide b" "totalSlides a = totalSlides b"
    "isAnimating a = isAnimating b" "frame_requests a = frame_requests b" "settles a = settles b"
    "prevButton a = prevButton b" "nextButton a = nextButton b"
  shows "phase_ok a \<longleftrightarrow> phase_ok b"
  using assms
  by (simp add: phase_ok_def shown_current_def controls_ok_def active_slides_def)

lemma active_slides_empty:
  "active_slides s = [] \<longleftrightarrow> (\<forall>j<length (slides s). ''active'' \<notin> classList (slides s ! j))"
  by (auto simp add: active_slides_def filter_empty_conv)

lemma goToSlide_coherent:
  assumes "coherent s"
  shows "coherent (goToSlide index s)"
proof (cases "isAnimating s \<or> index < 0 \<or> totalSlides s \<le> index")
  case True
  then show ?thesis using assms by (simp add: goToSlide_rejects)
next
  case False
  then have idle: "\<not> isAnimating s" and r: "0 \<le> index" "index < totalSlides s" by simp_all
  note nf = goToSlide_nf [OF idle r]
  from assms idle have st: "steady s" by (rule coherent_idle_steady)
  from assms have len: "totalSlides s = int (length (slides s))"
    and cur: "0 \<le> currentSlide s" "currentSlide s < totalSlides s"
    and ids: "ids_ok s" by (simp_all add: coherent_def)
  from st have rf: "\<forall>t \<in> set (timers s). action t = ResizeFire"
    and fr: "frame_requests s = []"
    and act: "active_slides s = [nat (currentSlide s)]" by (simp_all add: steady_def)
  from act have c: "\<forall>j<length (slides s).
      ''active'' \<in> classList (slides s ! j) \<longleftrightarrow> j = nat (currentSlide s)"
    by (simp add: active_slides_def filter_upt_eq_single)
  have a: "active_slides (goToSlide index s) = []"
    using c cur len
    by (auto simp add: active_slides_empty nf classList_mark_slide add_class_def remove_class_def)
  have s: "settles (goToSlide index s) = []"
    using rf by (auto simp add: settles_def nf filter_empty_conv)
  have i: "ids_ok (goToSlide index s)"
    using ids rf by (simp add: ids_ok_def nf)
  show ?thesis
    using a s i len r fr by (simp add: coherent_def phase_ok_def) (simp add: nf)
qed

lemma navigation_coherent:
  assumes "coherent s"
  shows "coherent (nextSlide s)" and "coherent (previousSlide s)"
    and "coherent (snd (handleKeyboard key s))" and "coherent (snd (handleTouchEnd x y s))"
proof -
  show n: "coherent (nextSlide s)"
    using assms goToSlide_coherent by (simp add: nextSlide_def)
  show p: "coherent (previousSlide s)"
    using assms goToSlide_coherent by (simp add: previousSlide_def)
  show "coherent (snd (handleKeyboard key s))"
    using assms n p goToSlide_coherent by (simp add: handleKeyboard_def)
  show "coherent (snd (handleTouchEnd x y s))"
    using assms n p by (simp add: handleTouchEnd_def Let_def)
qed


lemma animation_frame_none:
  "frame_requests s = [] \<Longrightarrow> animation_frame s = s"
  by (cases s) (simp add: animation_frame_def)

lemma commit_coherent:
  assumes "coherent s" and "frame_requests s = [FrameInner]"
  shows "coherent (commitSlide (s\<lparr>frame_requests := []\<rparr>))"
proof -
  let ?s' = "commitSlide (s\<lparr>frame_requests := []\<rparr>)"
  from assms have len: "totalSlides s = int (length (slides s))"
    and cur: "0 \<le> currentSlide s" "currentSlide s < totalSlides s"
    and ids: "ids_ok s" and an: "isAnimating s" and st: "settles s = []"
    and act: "active_slides s = []"
    by (auto simp add: coherent_def phase_ok_def)
  have el: "element_at (slides s) (currentSlide s) = Some (nat (currentSlide s))"
    using len cur by (simp add: element_at_def)
  have sl: "slides ?s' = mark_slide (\<lambda>cs. add_class ''active'' (remove_class ''exit'' cs))
                (currentSlide s) (slides s)"
    by (simp add: commitSlide_nf)
  have a: "shown_current ?s'"
  proof -
    from act have "\<forall>j<length (slides s). ''active'' \<notin> classList (slides s ! j)"
      by (simp add: active_slides_empty)
    then have "\<forall>j<length (slides ?s'). ''active'' \<in> classList (slides ?s' ! j)
                 \<longleftrightarrow> j = nat (currentSlide s)"
      using cur len by (auto simp add: sl classList_mark_slide add_class_def remove_class_def)
    moreover have "nat (currentSlide s) < length (slides ?s')" using cur len by (simp add: sl)
    moreover have "''exit'' \<notin> classList (slides ?s' ! nat (currentSlide s))"
      using cur len by (simp add: sl classList_mark_slide add_class_def remove_class_def)
    moreover have "currentSlide ?s' = currentSlide s" by (simp add: commitSlide_nf)
    ultimately show ?thesis
      by (simp add: shown_current_def active_slides_def filter_upt_eq_single)
  qed
  have t: "timers ?s' = insert_timer \<lparr>timer_id = Suc (timer_seq s), due = clock s + 600,
              action = Settle (Some (nat (currentSlide s)))\<rparr> (timers s)"
    by (simp add: commitSlide_nf el)
  have s1: "length (settles ?s') = 1"
    using st by (simp add: settles_def t filter_insert_timer_only)
  have i: "ids_ok ?s'"
    using ids by (auto simp add: ids_ok_def t commitSlide_nf el)
  have f: "isAnimating ?s'" "frame_requests ?s' = []" "totalSlides ?s' = totalSlides s"
    "currentSlide ?s' = currentSlide s" "length (slides ?s') = length (slides s)"
    using an by (simp_all add: commitSlide_nf)
  show ?thesis
    using a s1 i f len cur by (simp add: coherent_def phase_ok_def)
qed

lemma animation_frame_coherent:
  assumes "coherent s"
  shows "coherent (animation_frame s)"
proof -
  from assms consider "frame_requests s = []" | "frame_requests s = [FrameOuter]"
    | "frame_requests s = [FrameInner]"
    by (auto simp add: coherent_def phase_ok_def)
  then show ?thesis
  proof cases
    case 1
    then show ?thesis using assms by (simp add: animation_frame_none)
  next
    case 2
    then have "animation_frame s = s\<lparr>frame_requests := [FrameInner]\<rparr>"
      by (simp add: animation_frame_single requestAnimationFrame_def)
    moreover from assms 2 have "coherent (s\<lparr>frame_requests := [FrameInner]\<rparr>)"
      by (auto simp add: coherent_def ids_ok_def phase_ok_def shown_current_def controls_ok_def
            settles_def active_slides_def)
    ultimately show ?thesis by simp
  next
    case 3
    then show ?thesis
      using commit_coherent [OF assms 3] by (simp add: animation_frame_single)
  qed
qed

lemma filter_filter_implied:
  "(\<And>x. x \<in> set xs \<Longrightarrow> P x \<Longrightarrow> Q x) \<Longrightarrow> filter P (filter Q xs) = filter P xs"
  by (induction xs) auto

lemma handleResize_coherent:
  assumes "coherent s"
  shows "coherent (handleResize (s\<lparr>innerWidth := w\<rparr>))"
proof -
  define s0 where "s0 = s\<lparr>innerWidth := w\<rparr>"
  define s1 where "s1 = (case resizeTimeout s0 of
                  None \<Rightarrow> s0
                | Some i \<Rightarrow> if i = 0 then s0 else clearTimeout i s0)"
  define s2 where "s2 = handleResize s0"
  have hr: "s2 =
      s1\<lparr>timer_seq := Suc (timer_seq s1),
         timers := insert_timer \<lparr>timer_id = Suc (timer_seq s1), due = clock s1 + 250,
                     action = ResizeFire\<rparr> (timers s1),
         resizeTimeout := Some (Suc (timer_seq s1))\<rparr>"
    by (simp add: s2_def handleResize_def setTimeout_def Let_def s1_def [symmetric])
  from assms have ids: "ids_ok s" by (simp add: coherent_def)
  have sub: "set (timers s1) \<subseteq> set (timers s)"
    by (auto simp add: s1_def s0_def clearTimeout_def split: option.splits)
  have st: "settles s1 = settles s"
  proof (cases "resizeTimeout s")
    case None
    then show ?thesis by (simp add: s1_def s0_def settles_def)
  next
    case (Some i)
    from ids Some have "\<And>t. t \<in> set (timers s) \<Longrightarrow> action t \<noteq> ResizeFire \<Longrightarrow> timer_id t \<noteq> i"
      by (auto simp add: ids_ok_def)
    from filter_filter_implied [of "timers s" "\<lambda>t. action t \<noteq> ResizeFire" "\<lambda>t. timer_id t \<noteq> i", OF this]
    show ?thesis using Some by (simp add: s1_def s0_def settles_def clearTimeout_def)
  qed
  have f1: "timer_seq s1 = timer_seq s" "slides s1 = slides s" "currentSlide s1 = currentSlide s"
    "totalSlides s1 = totalSlides s" "isAnimating s1 = isAnimating s"
    "frame_requests s1 = frame_requests s" "prevButton s1 = prevButton s"
    "nextButton s1 = nextButton s"
    by (simp_all add: s1_def s0_def clearTimeout_def split: option.splits)
  have st2: "settles s2 = settles s"
    by (simp add: hr settles_def filter_insert_timer_other) (simp add: st [unfolded settles_def])
  have i2: "ids_ok s2"
    using ids sub by (fastforce simp add: ids_ok_def hr f1)
  have f2: "slides s2 = slides s" "currentSlide s2 = currentSlide s"
    "totalSlides s2 = totalSlides s" "isAnimating s2 = isAnimating s"
    "frame_requests s2 = frame_requests s" "prevButton s2 = prevButton s"
    "nextButton s2 = nextButton s"
    by (simp_all add: hr f1)
  from assms have "phase_ok s" by (simp add: coherent_def)
  then have "phase_ok s2"
    using phase_ok_cong [OF f2(1-5) st2 f2(6,7)] by simp
  then show ?thesis
    using assms i2 by (simp add: coherent_def s2_def [symmetric] s0_def [symmetric] f2)
qed


lemma shown_current_view:
  assumes "map classList (slides a) = map classList (slides b)"
    and "currentSlide a = currentSlide b"
  shows "shown_current a \<longleftrightarrow> shown_current b"
proof -
  have len: "length (slides a) = length (slides b)"
    using assms(1) by (rule map_eq_imp_length_eq)
  have act: "active_slides a = active_slides b"
    using assms(1) by (rule active_slides_cong)
  show ?thesis
  proof (cases "active_slides b = [nat (currentSlide b)]")
    case True
    then have "nat (currentSlide b) < length (slides b)"
      by (simp add: active_slides_def filter_upt_eq_single)
    from classes_eq_nth [OF assms(1) this] show ?thesis
      by (simp add: shown_current_def act assms(2))
  next
    case False
    then show ?thesis by (simp add: shown_current_def act assms(2))
  qed
qed

lemma view_cong:
  assumes "map classList (slides a) = map classList (slides b)"
    "currentSlide a = currentSlide b" "totalSlides a = totalSlides b"
    "isAnimating a = isAnimating b" "frame_requests a = frame_requests b" "timers a = timers b"
    "timer_seq a = timer_seq b" "resizeTimeout a = resizeTimeout b"
    "prevButton a = prevButton b" "nextButton a = nextButton b"
  shows "coherent a \<longleftrightarrow> coherent b" and "settling a \<longleftrightarrow> settling b"
proof -
  have len: "length (slides a) = length (slides b)"
    using assms(1) by (rule map_eq_imp_length_eq)
  have act: "active_slides a = active_slides b"
    using assms(1) by (rule active_slides_cong)
  note sc = shown_current_view [OF assms(1,2)]
  have st: "settles a = settles b" by (simp add: settles_def assms)
  have ids: "ids_ok a \<longleftrightarrow> ids_ok b" by (simp add: ids_ok_def assms)
  have ctl: "controls_ok a \<longleftrightarrow> controls_ok b" by (simp add: controls_ok_def assms)
  show "coherent a \<longleftrightarrow> coherent b"
    by (simp add: coherent_def phase_ok_def len act sc st ids ctl assms(2-5))
  show "settling a \<longleftrightarrow> settling b"
    by (simp add: settling_def len sc st ids assms(2-5))
qed

lemma fire_resize_view:
  assumes "action t = ResizeFire"
  shows "map classList (slides (fire s t)) = map classList (slides s)"
    "currentSlide (fire s t) = currentSlide s" "totalSlides (fire s t) = totalSlides s"
    "isAnimating (fire s t) = isAnimating s" "frame_requests (fire s t) = frame_requests s"
    "timers (fire s t) = timers s" "timer_seq (fire s t) = timer_seq s"
    "resizeTimeout (fire s t) = resizeTimeout s"
    "prevButton (fire s t) = prevButton s" "nextButton (fire s t) = nextButton s"
  using assms by (simp_all add: fire_def resizeFire_nf)

lemma fire_resize_coherent:
  assumes "action t = ResizeFire"
  shows "coherent (fire s t) \<longleftrightarrow> coherent s" and "settling (fire s t) \<longleftrightarrow> settling s"
  using view_cong [OF fire_resize_view [OF assms]] by simp_all

lemma fire_settle_coherent:
  assumes "action t = Settle el" and "settling s \<or> (coherent s \<and> \<not> isAnimating s)"
  shows "coherent (fire s t) \<and> \<not> isAnimating (fire s t)"
proof -
  have f: "fire s t = s\<lparr>clock := max (clock s) (due t),
       isAnimating := False,
       prevButton := map_option (set_disabled (currentSlide s = 0)) (prevButton s),
       nextButton := map_option (set_disabled (currentSlide s = totalSlides s - 1)) (nextButton s),
       focused := (case el of None \<Rightarrow> focused s | Some j \<Rightarrow> Some j)\<rparr>"
    using assms(1) by (simp add: fire_def settle_nf cong: option.case_cong)
  have c: "controls_ok (fire s t)"
    using fire_settle_idle [OF assms(1)] by simp
  have v: "shown_current (fire s t) = shown_current s" "settles (fire s t) = settles s"
    "ids_ok (fire s t) = ids_ok s"
    by (simp_all add: f shown_current_def active_slides_def settles_def ids_ok_def)
  from assms(2) have "totalSlides s = int (length (slides s)) \<and>
     0 \<le> currentSlide s \<and> currentSlide s < totalSlides s \<and> ids_ok s \<and>
     frame_requests s = [] \<and> settles s = [] \<and> shown_current s"
    by (auto simp add: settling_def coherent_def phase_ok_def)
  then show ?thesis
    using c v by (simp add: coherent_def phase_ok_def) (simp add: f)
qed

lemma foldl_fire_quiet:
  assumes "\<forall>t \<in> set ts. action t = ResizeFire"
  shows "coherent (foldl fire s ts) \<longleftrightarrow> coherent s"
  using assms by (induction ts arbitrary: s) (simp_all add: fire_resize_coherent)

lemma foldl_fire_settling:
  assumes "\<forall>t \<in> set ts. action t = ResizeFire \<or> action t = Settle el"
    and "(settling s \<and> (\<exists>t \<in> set ts. action t = Settle el)) \<or> (coherent s \<and> \<not> isAnimating s)"
  shows "coherent (foldl fire s ts) \<and> \<not> isAnimating (foldl fire s ts)"
  using assms
proof (induction ts arbitrary: s)
  case Nil
  then show ?case by simp
next
  case (Cons t ts)
  from Cons.prems(1) have t: "action t = ResizeFire \<or> action t = Settle el"
    and ts: "\<forall>u \<in> set ts. action u = ResizeFire \<or> action u = Settle el" by simp_all
  have "(settling (fire s t) \<and> (\<exists>u \<in> set ts. action u = Settle el)) \<or>
        (coherent (fire s t) \<and> \<not> isAnimating (fire s t))"
  proof (cases "action t = Settle el")
    case True
    from Cons.prems(2) have "settling s \<or> (coherent s \<and> \<not> isAnimating s)" by blast
    from fire_settle_coherent [OF True this] show ?thesis by simp
  next
    case False
    with t have r: "action t = ResizeFire" by simp
    from Cons.prems(2) False show ?thesis
      by (auto simp add: fire_resize_coherent [OF r] fire_resize_view(4) [OF r])
  qed
  from Cons.IH [OF ts this] show ?case by simp
qed


lemma elapse_coherent:
  assumes "coherent s"
  shows "coherent (elapse d s)"
proof -
  define t where "t = clock s + d"
  define ready where "ready = filter (\<lambda>tm. due tm \<le> t) (timers s)"
  define keep where "keep = filter (\<lambda>tm. \<not> due tm \<le> t) (timers s)"
  define s1 where "s1 = s\<lparr>timers := keep\<rparr>"
  define el where "el = Some (nat (currentSlide s))"
  have e: "elapse d s = (foldl fire s1 ready)\<lparr>clock := t\<rparr>"
    by (simp add: elapse_def Let_def t_def ready_def keep_def s1_def)
  from assms have ids: "ids_ok s" and core: "totalSlides s = int (length (slides s))"
    "0 \<le> currentSlide s" "currentSlide s < totalSlides s" and ph: "phase_ok s"
    by (simp_all add: coherent_def)
  have acts: "\<forall>u \<in> set ready. action u = ResizeFire \<or> action u = Settle el"
    using ids by (auto simp add: ids_ok_def ready_def el_def)
  have ids1: "ids_ok s1"
    using ids by (auto simp add: ids_ok_def s1_def keep_def)
  have st1: "settles s1 = filter (\<lambda>tm. \<not> due tm \<le> t) (settles s)"
    by (simp add: settles_def s1_def keep_def conj_commute)
  have fin: "coherent (foldl fire s1 ready)"
  proof (cases "\<forall>u \<in> set ready. action u = ResizeFire")
    case True
    have "\<And>x. x \<in> set (settles s) \<Longrightarrow> \<not> due x \<le> t"
      using True by (auto simp add: settles_def ready_def)
    then have "settles s1 = settles s"
      by (simp add: st1 filter_id_conv)
    from phase_ok_cong [of s1 s, OF _ _ _ _ _ this] ph have "phase_ok s1"
      by (simp add: s1_def)
    with core ids1 have "coherent s1" by (simp add: coherent_def s1_def)
    then show ?thesis by (simp add: foldl_fire_quiet [OF True])
  next
    case False
    then obtain u where u: "u \<in> set ready" "action u \<noteq> ResizeFire" by blast
    with acts have us: "action u = Settle el" by blast
    from u have uin: "u \<in> set (settles s)" and udue: "due u \<le> t"
      by (simp_all add: settles_def ready_def)
    then have ne: "settles s \<noteq> []" by auto
    with ph have c: "isAnimating s" "frame_requests s = []" "length (settles s) = 1"
      "shown_current s"
      by (auto simp add: phase_ok_def)
    from c(3) uin have "settles s = [u]"
      by (cases "settles s") auto
    with udue have "settles s1 = []" by (simp add: st1)
    moreover have "shown_current s1 = shown_current s"
      by (simp add: shown_current_def active_slides_def s1_def)
    ultimately have "settling s1"
      using core ids1 c by (simp add: settling_def) (simp add: s1_def)
    with u us have "settling s1 \<and> (\<exists>t \<in> set ready. action t = Settle el)" by blast
    then show ?thesis using foldl_fire_settling [OF acts] by blast
  qed
  show ?thesis
    unfolding e
    using view_cong(1) [of "(foldl fire s1 ready)\<lparr>clock := t\<rparr>" "foldl fire s1 ready"] fin
    by simp
qed

lemma simple_events_coherent:
  assumes "coherent s"
  shows "coherent (handleTouchStart x y s)" and "coherent (save_on_exit s)"
    and "coherent (s\<lparr>localStorage := st\<rparr>)"
proof -
  show "coherent (handleTouchStart x y s)"
    using view_cong(1) [of "handleTouchStart x y s" s] assms
    by (simp add: handleTouchStart_def)
  show "coherent (save_on_exit s)"
    using view_cong(1) [of "save_on_exit s" s] assms
    by (simp add: save_on_exit_def saveProgress_nf)
  show "coherent (s\<lparr>localStorage := st\<rparr>)"
    using view_cong(1) [of "s\<lparr>localStorage := st\<rparr>" s] assms by simp
qed

lemma deliver_coherent:
  assumes "coherent s"
  shows "coherent (deliver ev s)"
  using assms
  by (cases ev)
     (simp_all add: navigation_coherent goToSlide_coherent handleResize_coherent
        animation_frame_coherent elapse_coherent simple_events_coherent)

lemma run_events_coherent:
  assumes "coherent s"
  shows "coherent (run_events evs s)"
  using assms unfolding run_events_def
  by (induction evs arbitrary: s) (simp_all add: deliver_coherent)

lemma init_scheduler:
  assumes "init s = Inr s'"
  shows "resizeTimeout s' = resizeTimeout s" and "timer_seq s' = timer_seq s"
  using assms
  by (auto simp add: init_def initCharts_nf loadProgress_nf showSlide_nf
       updateProgress_nf updateSlideCounter_nf updateButtonStates_nf Let_def)

lemma constructed_coherent:
  assumes "slides page \<noteq> []" and "frame_requests page = []" and "timers page = []"
  shows "coherent (construct page)"
proof -
  have st: "steady (construct page)"
    using constructed_steady(1) [OF assms(1,2)] assms(3) by simp
  have i: "init (page\<lparr>currentSlide := 0,
                totalSlides := int (length (slides page)),
                isAnimating := False,
                touchStartX := 0, touchStartY := 0, touchStartTime := 0,
                charts := [],
                isMobile := innerWidth page \<le> 768,
                isTablet := 768 < innerWidth page \<and> innerWidth page \<le> 1024,
                resizeTimeout := None\<rparr>) = Inr (construct page)"
    using construct_eq [of page] by (simp add: PresentationController_def)
  have "timers (construct page) = []"
    using init_fields(4) [OF i] assms(3) by simp
  moreover have "resizeTimeout (construct page) = None"
    using init_scheduler(1) [OF i] by simp
  ultimately have "ids_ok (construct page)" by (simp add: ids_ok_def)
  with st show ?thesis by (rule steady_coherent)
qed

lemma reachable_idle_steady:
  assumes "slides page \<noteq> []" and "frame_requests page = []" and "timers page = []"
    and "\<not> isAnimating (run_events evs (construct page))"
  shows "steady (run_events evs (construct page))"
  using coherent_idle_steady [OF run_events_coherent [OF constructed_coherent [OF assms(1-3)]] assms(4)] .

end
